theory Spec2Isabelle
  imports Main "HOL-Library.Word" "HOL-Library.Monad_Syntax" "HOL-Library.Multiset"
begin

unbundle bit_operations_syntax

section \<open>Data model\<close>

text \<open>
  The harness of \<^verbatim>\<open>src/inc/harness.h\<close> and its iterative instance \<^verbatim>\<open>HarnessBFS\<close> of
  \<^verbatim>\<open>src/app/bfs.cpp\<close> (instantiated at \<^verbatim>\<open>SemiRingType = int\<close>). Host buffers are
  \<^verbatim>\<open>std::vector<char>\<close>: lists of bytes. A \<^verbatim>\<open>cl_mem\<close> is an opaque handle of a
  device buffer. Sizes (\<^verbatim>\<open>size_t\<close>) are natural numbers; \<^verbatim>\<open>unsigned int\<close> counters
  that are compared with a \<^verbatim>\<open>size_t\<close> are 32-bit words, so that their wrap-around
  is part of the model.
\<close>

type_synonym byte = "8 word"
type_synonym cl_mem = nat

datatype Correctness = NOT_CHECKED | CORRECT | BAD_LENGTH | BAD_VALUES

datatype StatKind = RAW_RESULT | MEDIAN_RESULT | MULTI_ITERATION_SUM

record Run =
  global1 :: nat
  global2 :: nat
  global3 :: nat
  local1 :: nat
  local2 :: nat
  local3 :: nat

text \<open>
  \<^verbatim>\<open>SqlStat\<close> is declared in \<^verbatim>\<open>sql_stat.h\<close>, which is not among the sources. The
  record has one field per argument of the constructor calls in \<^verbatim>\<open>bfs.cpp\<close>; the
  trial and iteration arguments are optional there (\<open>None\<close> is the constructor's
  default). \<^verbatim>\<open>std::chrono::nanoseconds\<close> is a signed tick count, taken as \<open>int\<close>
  (signed overflow of a duration is undefined behaviour in C++ and is not modelled).
\<close>

record SqlStat =
  getTime :: int
  correctness :: Correctness
  stat_global :: nat
  stat_local :: nat
  kind :: StatKind
  trial :: "nat option"
  iteration :: "int option"

record ArgContainer =
  m_idxs :: "byte list"
  m_vals :: "byte list"
  x_vect :: "byte list"
  y_vect :: "byte list"
  alpha :: "32 word"
  beta :: "32 word"
  output_arg :: nat
  temp_globals :: "nat list"
  temp_locals :: "nat list"
  size_args :: "nat list"

text \<open>
  \<^verbatim>\<open>CLMemoryManager\<close> (\<^verbatim>\<open>cl_memory_manager.h\<close>, not among the sources): the fields the
  harness reads and writes, \<^verbatim>\<open>_mem_manager._x_vect\<close> being \<open>mm_x_vect\<close> and so on.
  The value of \<^verbatim>\<open>_input_idx\<close> is set outside the sources and stays a parameter of
  the state; \<^verbatim>\<open>allocateBuffers\<close> sets \<^verbatim>\<open>_output_idx\<close>.
\<close>

record CLMemoryManager =
  mm_matrix_idxs :: cl_mem
  mm_matrix_vals :: cl_mem
  mm_x_vect :: cl_mem
  mm_y_vect :: cl_mem
  mm_output :: cl_mem
  mm_temp_global :: "cl_mem list"
  mm_input_host_buffer :: "byte list"
  mm_output_host_buffer :: "byte list"
  mm_temp_out_buffer :: "byte list"
  mm_input_idx :: nat
  mm_output_idx :: nat

text \<open>
  The device as the harness sees it through OpenCL: the argument table of the one
  kernel (\<^verbatim>\<open>clSetKernelArg\<close>), the history of the calls that wrote it, the contents of
  the device buffers, and the number of kernel launches so far. Every OpenCL call of
  the sources is wrapped in \<^verbatim>\<open>checkCLError\<close>, which ends the process on a failure
  status; the model describes the executions in which the device calls succeed.
\<close>

datatype karg = GlobalArg cl_mem | ValueArg "32 word" | LocalArg nat

record device =
  kernel_args :: "nat \<rightharpoonup> karg"
  set_arg_calls :: "(nat \<times> karg) list"
  mem :: "cl_mem \<Rightarrow> byte list"
  launches :: nat

text \<open>
  The compute kernel is supplied from outside and is opaque: given the work shape and
  the device (bound arguments, buffer contents, launch count) it yields the profiling
  timestamps \<^verbatim>\<open>CL_PROFILING_COMMAND_START\<close> and \<^verbatim>\<open>CL_PROFILING_COMMAND_END\<close>
  (\<^verbatim>\<open>cl_ulong\<close>) and the buffer contents after the launch.
\<close>

type_synonym kernel = "Run \<Rightarrow> device \<Rightarrow> 64 word \<times> 64 word \<times> (cl_mem \<Rightarrow> byte list)"

record Harness =
  args :: ArgContainer
  mem_manager :: CLMemoryManager
  dev :: device
  trials :: nat
  timeout :: nat

section \<open>Reading a byte buffer as a vector of int\<close>

text \<open>
  \<^verbatim>\<open>reinterpret_cast<int *>(buf.data())[i]\<close>: the four bytes at offset \<open>4 * i\<close>, least
  significant byte first.
\<close>

definition le32 :: "byte \<Rightarrow> byte \<Rightarrow> byte \<Rightarrow> byte \<Rightarrow> 32 word" where
  "le32 b0 b1 b2 b3 =
     ucast b0 OR push_bit 8 (ucast b1) OR push_bit 16 (ucast b2) OR push_bit 24 (ucast b3)"

definition int_at :: "byte list \<Rightarrow> nat \<Rightarrow> 32 word" where
  "int_at buf i = le32 (buf ! (4 * i)) (buf ! (4 * i + 1)) (buf ! (4 * i + 2)) (buf ! (4 * i + 3))"

section \<open>HarnessBFS::should_terminate_iteration\<close>

text \<open>
  The \<^verbatim>\<open>for\<close> loop of \<^verbatim>\<open>should_terminate_iteration\<close>: \<open>i\<close> is an \<^verbatim>\<open>unsigned int\<close>,
  the two lengths are \<^verbatim>\<open>size_t\<close>. The loop need not end (a counter that wraps before
  it reaches the lengths), so it is a partial function: \<open>None\<close> is a loop that
  never exits.
\<close>

partial_function (option) compare_loop ::
  "byte list \<Rightarrow> byte list \<Rightarrow> bool \<Rightarrow> 32 word \<Rightarrow> bool option" where
  "compare_loop input outp equal i =
     (if equal = True \<and> unat i < length input div 4 \<and> unat i < length outp div 4
      then compare_loop input outp (int_at input (unat i) = int_at outp (unat i)) (i + 1)
      else Some equal)"

declare compare_loop.simps [code]

definition should_terminate_iteration :: "byte list \<Rightarrow> byte list \<Rightarrow> bool option" where
  "should_terminate_iteration input outp = compare_loop input outp True 0"

section \<open>Harness::check_result\<close>

text \<open>
  What \<^verbatim>\<open>check_result\<close> prints: the size message on \<^verbatim>\<open>std::cout\<close> for an empty gold
  vector, and one \<^verbatim>\<open>LOG_ERROR\<close> line per reported mismatch (expected value, index,
  value found).
\<close>

datatype log_event = GoldSize nat | Mismatch "32 word" nat "32 word"

text \<open>
  The checking loop, entered with \<open>i = 0\<close>, \<open>error_count = 0\<close> and an empty log;
  \<^verbatim>\<open>max_errors\<close> is 20 and the \<^verbatim>\<open>break\<close> leaves the loop with the current count.
\<close>

partial_function (option) check_loop ::
  "32 word list \<Rightarrow> byte list \<Rightarrow> 32 word \<Rightarrow> int \<Rightarrow> log_event list \<Rightarrow> (int \<times> log_event list) option"
  where
  "check_loop gold res i error_count lg =
     (if unat i < length gold
      then (if gold ! unat i \<noteq> int_at res (unat i)
            then (let lg' = lg @ [Mismatch (gold ! unat i) (unat i) (int_at res (unat i))];
                      error_count' = error_count + 1
                  in if error_count' = 20 then Some (error_count', lg')
                     else check_loop gold res (i + 1) error_count' lg')
            else check_loop gold res (i + 1) error_count lg)
      else Some (error_count, lg))"

declare check_loop.simps [code]

text \<open>
  \<^verbatim>\<open>output_length\<close> is an \<^verbatim>\<open>unsigned int\<close> initialised from a \<^verbatim>\<open>size_t\<close> quotient: the
  value is truncated to 32 bits.
\<close>

definition check_result :: "32 word list \<Rightarrow> Harness \<Rightarrow> (Correctness \<times> log_event list) option" where
  "check_result gold h =
     (if length gold = 0 then Some (NOT_CHECKED, [GoldSize (length gold)])
      else
        let output_length = (length (mm_output_host_buffer (mem_manager h)) * 1 div 4) mod 2 ^ 32;
            res = mm_output_host_buffer (mem_manager h)
        in if output_length < length gold then Some (BAD_LENGTH, [])
           else (case check_loop gold res 0 0 [] of
                   None \<Rightarrow> None
                 | Some (error_count, lg) \<Rightarrow>
                     if error_count > 0 then Some (BAD_VALUES, lg) else Some (CORRECT, lg)))"

section \<open>Device operations of Harness\<close>

text \<open>
  Timers and debug logging (\<^verbatim>\<open>start_timer\<close>, \<^verbatim>\<open>report_timing\<close>, \<^verbatim>\<open>LOG_DEBUG_INFO\<close>,
  \<^verbatim>\<open>printCharVector\<close>) do not touch the state below and are left out.
\<close>

text \<open>\<^verbatim>\<open>setGlobalArg(arg, mem)\<close>: \<^verbatim>\<open>clSetKernelArg\<close> copies the handle \<^verbatim>\<open>*mem\<close> into slot \<open>arg\<close>.\<close>

definition setGlobalArg :: "nat \<Rightarrow> cl_mem \<Rightarrow> Harness \<Rightarrow> Harness" where
  "setGlobalArg arg m h =
     h\<lparr>dev := (dev h)\<lparr>kernel_args := (kernel_args (dev h))(arg \<mapsto> GlobalArg m),
                       set_arg_calls := set_arg_calls (dev h) @ [(arg, GlobalArg m)]\<rparr>\<rparr>"

text \<open>
  \<^verbatim>\<open>executeKernel\<close>: one launch, then \<^verbatim>\<open>std::chrono::nanoseconds elapsed_ns(end - start)\<close>,
  the \<^verbatim>\<open>cl_ulong\<close> difference read as a signed 64-bit tick count.
\<close>

definition executeKernel :: "kernel \<Rightarrow> Run \<Rightarrow> Harness \<Rightarrow> int \<times> Harness" where
  "executeKernel K run h =
     (case K run (dev h) of
        (start_ts, end_ts, m') \<Rightarrow>
          (sint (end_ts - start_ts),
           h\<lparr>dev := (dev h)\<lparr>mem := m', launches := launches (dev h) + 1\<rparr>\<rparr>))"

text \<open>\<^verbatim>\<open>clEnqueueWriteBuffer\<close> of the whole host vector at offset 0.\<close>

definition writeToGlobalArg :: "byte list \<Rightarrow> cl_mem \<Rightarrow> Harness \<Rightarrow> Harness" where
  "writeToGlobalArg arg buffer h =
     h\<lparr>dev := (dev h)\<lparr>mem := (mem (dev h))
            (buffer := arg @ drop (length arg) (mem (dev h) buffer))\<rparr>\<rparr>"

text \<open>\<^verbatim>\<open>clEnqueueFillBuffer\<close> of \<open>buffer_size\<close> zero bytes at offset 0.\<close>

definition fillGlobalArg :: "nat \<Rightarrow> cl_mem \<Rightarrow> Harness \<Rightarrow> Harness" where
  "fillGlobalArg buffer_size buffer h =
     h\<lparr>dev := (dev h)\<lparr>mem := (mem (dev h))
            (buffer := replicate buffer_size 0 @ drop buffer_size (mem (dev h) buffer))\<rparr>\<rparr>"

text \<open>
  \<^verbatim>\<open>readFromGlobalArg(arg, buffer)\<close>: \<^verbatim>\<open>clEnqueueReadBuffer\<close> copies \<^verbatim>\<open>arg.size()\<close> bytes
  of the device buffer into the host vector, whose size does not change. The result
  is the new contents of the host vector.
\<close>

definition readFromGlobalArg :: "byte list \<Rightarrow> cl_mem \<Rightarrow> Harness \<Rightarrow> byte list" where
  "readFromGlobalArg arg buffer h =
     (let data = mem (dev h) buffer
      in take (length arg) data @ drop (length data) arg)"

text \<open>
  \<^verbatim>\<open>resetTempBuffers\<close>: the range-for over \<^verbatim>\<open>_mem_manager._temp_global\<close> with the running
  \<^verbatim>\<open>temp_index\<close>. \<^verbatim>\<open>allocateBuffers\<close> creates one temporary buffer per entry of
  \<^verbatim>\<open>_args.temp_globals\<close>, so the index is in range; an index beyond the vector is
  undefined behaviour in C++ and fills nothing here.
\<close>

fun resetTempBuffers_loop :: "cl_mem list \<Rightarrow> nat \<Rightarrow> Harness \<Rightarrow> Harness" where
  "resetTempBuffers_loop [] temp_index h = h"
| "resetTempBuffers_loop (arg # rest) temp_index h =
     resetTempBuffers_loop rest (temp_index + 1)
       (if temp_index < length (temp_globals (args h))
        then fillGlobalArg (temp_globals (args h) ! temp_index) arg h
        else h)"

definition resetTempBuffers :: "Harness \<Rightarrow> Harness" where
  "resetTempBuffers h = resetTempBuffers_loop (mm_temp_global (mem_manager h)) 0 h"

text \<open>\<^verbatim>\<open>IterativeHarness::resetInputs\<close>, statement by statement.\<close>

definition resetInputs :: "Harness \<Rightarrow> Harness" where
  "resetInputs h =
     (let h1 = writeToGlobalArg (m_idxs (args h)) (mm_matrix_idxs (mem_manager h)) h;
          h2 = writeToGlobalArg (m_vals (args h1)) (mm_matrix_vals (mem_manager h1)) h1;
          h3 = setGlobalArg 2 (mm_x_vect (mem_manager h2)) h2;
          h4 = writeToGlobalArg (x_vect (args h3)) (mm_x_vect (mem_manager h3)) h3;
          h5 = setGlobalArg 3 (mm_y_vect (mem_manager h4)) h4;
          h6 = writeToGlobalArg (y_vect (args h5)) (mm_y_vect (mem_manager h5)) h5;
          h7 = setGlobalArg 6 (mm_output (mem_manager h6)) h6;
          h8 = fillGlobalArg (output_arg (args h7)) (mm_output (mem_manager h7)) h7
      in resetTempBuffers h8)"

section \<open>HarnessBFS::executeRun\<close>

text \<open>
  The four local pointers of \<^verbatim>\<open>executeRun\<close> point at fields of \<^verbatim>\<open>_mem_manager\<close>; a
  pointer is the name of the field it points at, and \<^verbatim>\<open>std::swap\<close> exchanges the
  names, not the fields' contents.
\<close>

datatype mem_ptr = Addr_x_vect | Addr_output

datatype host_ptr = Addr_input_host_buffer | Addr_output_host_buffer

fun deref_mem :: "mem_ptr \<Rightarrow> Harness \<Rightarrow> cl_mem" where
  "deref_mem Addr_x_vect h = mm_x_vect (mem_manager h)"
| "deref_mem Addr_output h = mm_output (mem_manager h)"

fun deref_host :: "host_ptr \<Rightarrow> Harness \<Rightarrow> byte list" where
  "deref_host Addr_input_host_buffer h = mm_input_host_buffer (mem_manager h)"
| "deref_host Addr_output_host_buffer h = mm_output_host_buffer (mem_manager h)"

fun assign_host :: "host_ptr \<Rightarrow> byte list \<Rightarrow> Harness \<Rightarrow> Harness" where
  "assign_host Addr_input_host_buffer v h =
     h\<lparr>mem_manager := (mem_manager h)\<lparr>mm_input_host_buffer := v\<rparr>\<rparr>"
| "assign_host Addr_output_host_buffer v h =
     h\<lparr>mem_manager := (mem_manager h)\<lparr>mm_output_host_buffer := v\<rparr>\<rparr>"

text \<open>
  Modelled from the spec: \<^verbatim>\<open>assertBuffersNotEqual\<close> is not among the sources; the
  specification describes the snapshot comparison as "used only for diagnostic
  assertion, not control flow", so it leaves the state as it is.
\<close>

definition assertBuffersNotEqual :: "byte list \<Rightarrow> byte list \<Rightarrow> Harness \<Rightarrow> Harness" where
  "assertBuffersNotEqual a b h = h"

text \<open>The variables of \<^verbatim>\<open>executeRun\<close>: \<^verbatim>\<open>this\<close> and the locals.\<close>

record loop_state =
  this :: Harness
  input_mem_ptr :: mem_ptr
  output_mem_ptr :: mem_ptr
  input_host_ptr :: host_ptr
  output_host_ptr :: host_ptr
  should_terminate :: bool
  iteration :: int
  runtimes :: "SqlStat list"

text \<open>
  One pass through the body of the \<^verbatim>\<open>do ... while\<close> loop. \<^verbatim>\<open>std::copy\<close> overwrites
  the front of \<^verbatim>\<open>_temp_out_buffer\<close> with the output shadow. The body does not end
  when the comparison loop of \<^verbatim>\<open>should_terminate_iteration\<close> does not.
\<close>

definition loop_body :: "kernel \<Rightarrow> Run \<Rightarrow> nat \<Rightarrow> loop_state \<Rightarrow> loop_state option" where
  "loop_body K run trial_no s =
     (let h0 = this s;
          out0 = deref_host (output_host_ptr s) h0;
          h1 = h0\<lparr>mem_manager := (mem_manager h0)
                 \<lparr>mm_temp_out_buffer := out0 @ drop (length out0) (mm_temp_out_buffer (mem_manager h0))\<rparr>\<rparr>;
          h2 = resetTempBuffers h1;
          (time, h3) = executeKernel K run h2;
          runtimes' = runtimes s @
            [\<lparr>getTime = time, correctness = NOT_CHECKED, stat_global = global1 run,
              stat_local = local1 run, kind = RAW_RESULT, trial = Some trial_no,
              iteration = Some (iteration s)\<rparr>];
          h4 = assign_host (output_host_ptr s)
                 (readFromGlobalArg (deref_host (output_host_ptr s) h3)
                    (deref_mem (output_mem_ptr s) h3) h3) h3;
          h5 = assertBuffersNotEqual (deref_host (output_host_ptr s) h4)
                 (mm_temp_out_buffer (mem_manager h4)) h4
      in do {
        should_terminate' \<leftarrow>
          should_terminate_iteration (deref_host (input_host_ptr s) h5)
            (deref_host (output_host_ptr s) h5);
        let input_mem_ptr' = output_mem_ptr s;
        let output_mem_ptr' = input_mem_ptr s;
        let input_host_ptr' = output_host_ptr s;
        let output_host_ptr' = input_host_ptr s;
        let h6 = setGlobalArg (mm_input_idx (mem_manager h5)) (deref_mem input_mem_ptr' h5) h5;
        let h7 = setGlobalArg (mm_output_idx (mem_manager h6)) (deref_mem output_mem_ptr' h6) h6;
        let h8 = setGlobalArg 3 (deref_mem input_mem_ptr' h7) h7;
        Some \<lparr>this = h8, input_mem_ptr = input_mem_ptr', output_mem_ptr = output_mem_ptr',
              input_host_ptr = input_host_ptr', output_host_ptr = output_host_ptr',
              should_terminate = should_terminate', iteration = iteration s + 1,
              runtimes = runtimes'\<rparr>
      })"

text \<open>
  The \<^verbatim>\<open>do ... while (!should_terminate)\<close> loop. Nothing bounds the number of passes,
  so the loop is a partial function: \<open>None\<close> is a loop that never exits.
\<close>

partial_function (option) run_loop ::
  "kernel \<Rightarrow> Run \<Rightarrow> nat \<Rightarrow> loop_state \<Rightarrow> loop_state option" where
  "run_loop K run trial_no s =
     do {
       s' \<leftarrow> loop_body K run trial_no s;
       if \<not> should_terminate s' then run_loop K run trial_no s' else Some s'
     }"

declare run_loop.simps [code]

definition executeRun_entry :: "Harness \<Rightarrow> loop_state" where
  "executeRun_entry h =
     \<lparr>this = h, input_mem_ptr = Addr_x_vect, output_mem_ptr = Addr_output,
      input_host_ptr = Addr_input_host_buffer, output_host_ptr = Addr_output_host_buffer,
      should_terminate = False, iteration = 0, runtimes = []\<rparr>"

definition executeRun :: "kernel \<Rightarrow> Run \<Rightarrow> nat \<Rightarrow> Harness \<Rightarrow> (SqlStat list \<times> Harness) option" where
  "executeRun K run trial_no h =
     do {
       s \<leftarrow> run_loop K run trial_no (executeRun_entry h);
       Some (runtimes s, this s)
     }"

text \<open>
  The state after \<open>n\<close> passes through the loop body, whatever the flags say: the
  unrolling that the statements about "after \<open>n\<close> iterations" speak of.
\<close>

fun iterations :: "kernel \<Rightarrow> Run \<Rightarrow> nat \<Rightarrow> nat \<Rightarrow> loop_state \<Rightarrow> loop_state option" where
  "iterations K run trial_no 0 s = Some s"
| "iterations K run trial_no (Suc n) s =
     Option.bind (iterations K run trial_no n s) (loop_body K run trial_no)"

section \<open>HarnessBFS::benchmark\<close>

text \<open>
  Indexing a \<^verbatim>\<open>std::vector\<close> beyond its size is undefined behaviour; the model makes
  it an error value.
\<close>

datatype error = IndexOutOfRange

text \<open>
  Modelled from the spec: \<^verbatim>\<open>SqlStat::compare\<close> is declared in \<^verbatim>\<open>sql_stat.h\<close>, which is
  not among the sources; the specification says the records of a trial are sorted "by
  duration", so the comparator is the strict order of the durations.
\<close>

definition SqlStat_compare :: "SqlStat \<Rightarrow> SqlStat \<Rightarrow> bool" where
  "SqlStat_compare a b \<longleftrightarrow> getTime a < getTime b"

text \<open>
  \<^verbatim>\<open>std::sort(first, last, comp)\<close> rearranges the range so that no element is ordered
  by \<^verbatim>\<open>comp\<close> before an element that precedes it. Elements that \<^verbatim>\<open>comp\<close> does not
  distinguish may come out in any order: the sort is not stable. \<open>std_sort_result\<close>
  holds of every sequence that the call may leave.
\<close>

definition std_sort_result :: "('a \<Rightarrow> 'a \<Rightarrow> bool) \<Rightarrow> 'a list \<Rightarrow> 'a list \<Rightarrow> bool" where
  "std_sort_result lt xs ys \<longleftrightarrow> mset ys = mset xs \<and> sorted_wrt (\<lambda>a b. \<not> lt b a) ys"

text \<open>
  One of these sequences, computed by insertion, stands for the call where \<open>benchmark\<close>
  is evaluated. It leaves records of equal duration in the order of their iterations,
  which \<^verbatim>\<open>std::sort\<close> need not do; what is compared (here the durations) is at the
  same positions in every sequence that \<open>std_sort_result\<close> admits.
\<close>

fun std_insert :: "('a \<Rightarrow> 'a \<Rightarrow> bool) \<Rightarrow> 'a \<Rightarrow> 'a list \<Rightarrow> 'a list" where
  "std_insert lt x [] = [x]"
| "std_insert lt x (y # ys) = (if lt y x then y # std_insert lt x ys else x # y # ys)"

definition std_sort :: "('a \<Rightarrow> 'a \<Rightarrow> bool) \<Rightarrow> 'a list \<Rightarrow> 'a list" where
  "std_sort lt xs = foldr (std_insert lt) xs []"

text \<open>
  The statements of the trial loop between the call of \<^verbatim>\<open>std::sort\<close> and
  \<^verbatim>\<open>resetInputs\<close>, as a function of the vector that the sort has left: median record,
  sum record.
\<close>

definition trial_records_after_sort :: "Run \<Rightarrow> nat \<Rightarrow> SqlStat list \<Rightarrow> error + SqlStat list" where
  "trial_records_after_sort run t sorted_runtimes =
     (if length sorted_runtimes div 2 < length sorted_runtimes
      then
        let median_time = getTime (sorted_runtimes ! (length sorted_runtimes div 2));
            with_median = sorted_runtimes @
              [\<lparr>getTime = median_time, correctness = NOT_CHECKED, stat_global = global1 run,
                stat_local = local1 run, kind = MEDIAN_RESULT, trial = Some t,
                iteration = None\<rparr>];
            total_time = foldl (\<lambda>time stat. time + getTime stat) 0 with_median
        in Inr (with_median @
              [\<lparr>getTime = total_time, correctness = NOT_CHECKED, stat_global = global1 run,
                stat_local = local1 run, kind = MULTI_ITERATION_SUM, trial = None,
                iteration = None\<rparr>])
      else Inl IndexOutOfRange)"

text \<open>
  The statements of the trial loop between \<^verbatim>\<open>executeRun\<close> and \<^verbatim>\<open>resetInputs\<close>: sort,
  median record, sum record.
\<close>

definition trial_records :: "Run \<Rightarrow> nat \<Rightarrow> SqlStat list \<Rightarrow> error + SqlStat list" where
  "trial_records run t run_runtimes =
     trial_records_after_sort run t (std_sort SqlStat_compare run_runtimes)"

text \<open>
  The \<^verbatim>\<open>for\<close> loop over the trials \<open>t = 0, ..., _trials - 1\<close> (\<^verbatim>\<open>_trials\<close> is assigned
  nowhere in the loop), as a recursion over the trial numbers still to run.
\<close>

fun benchmark_trials ::
  "kernel \<Rightarrow> Run \<Rightarrow> nat list \<Rightarrow> SqlStat list list \<Rightarrow> Harness
     \<Rightarrow> (error + SqlStat list list \<times> Harness) option" where
  "benchmark_trials K run [] all_runtimes h = Some (Inr (all_runtimes, h))"
| "benchmark_trials K run (t # ts) all_runtimes h =
     (case executeRun K run t h of
        None \<Rightarrow> None
      | Some (run_runtimes, h1) \<Rightarrow>
          (case trial_records run t run_runtimes of
             Inl e \<Rightarrow> Some (Inl e)
           | Inr recs \<Rightarrow> benchmark_trials K run ts (all_runtimes @ [recs]) (resetInputs h1)))"

definition benchmark ::
  "kernel \<Rightarrow> Run \<Rightarrow> Harness \<Rightarrow> (error + SqlStat list list \<times> Harness) option" where
  "benchmark K run h = benchmark_trials K run [0..<trials h] [] h"

section \<open>Notions used in the statements\<close>

text \<open>
  The raw timing record that \<^verbatim>\<open>executeRun\<close> constructs for iteration \<open>it\<close> of trial
  \<open>t\<close>: the record literal of \<open>loop_body\<close>, under a name.
\<close>

definition raw_record :: "Run \<Rightarrow> nat \<Rightarrow> int \<Rightarrow> int \<Rightarrow> SqlStat" where
  "raw_record run t it time =
     \<lparr>getTime = time, correctness = NOT_CHECKED, stat_global = global1 run,
      stat_local = local1 run, kind = RAW_RESULT, trial = Some t, iteration = Some it\<rparr>"

text \<open>
  The two host shadows agree: read as vectors of int, they are equal at every position
  below the length of the shorter one (the first \<open>4 * m\<close> bytes coincide).
\<close>

definition shadows_agree :: "loop_state \<Rightarrow> bool" where
  "shadows_agree s =
     (let a = deref_host (input_host_ptr s) (this s);
          b = deref_host (output_host_ptr s) (this s);
          m = min (length a div 4) (length b div 4)
      in take (4 * m) a = take (4 * m) b)"

text \<open>
  The two shadow pointers are different fields, and the shorter shadow holds fewer ints
  than the \<^verbatim>\<open>unsigned int\<close> counter of the comparison loop can count.
\<close>

definition counter_in_range :: "loop_state \<Rightarrow> bool" where
  "counter_in_range s \<longleftrightarrow>
     input_host_ptr s \<noteq> output_host_ptr s \<and>
     min (length (deref_host (input_host_ptr s) (this s)) div 4)
         (length (deref_host (output_host_ptr s) (this s)) div 4) < 2 ^ 32"

text \<open>
  The loop started in \<open>s\<close> leaves after pass \<open>n + 1\<close> in state \<open>s'\<close>: that pass sets the
  flag, and no earlier pass does.
\<close>

definition exits_at :: "kernel \<Rightarrow> Run \<Rightarrow> nat \<Rightarrow> loop_state \<Rightarrow> nat \<Rightarrow> loop_state \<Rightarrow> bool" where
  "exits_at K run t s n s' \<longleftrightarrow>
     iterations K run t (Suc n) s = Some s' \<and> should_terminate s' \<and>
     (\<forall>m<n. \<forall>s''. iterations K run t (Suc m) s = Some s'' \<longrightarrow> \<not> should_terminate s'')"

text \<open>
  The contract of \<^verbatim>\<open>check_result\<close> in the words of the specification: the mismatches
  in index order, and the verdict with the log of at most 20 of them.
\<close>

definition mismatches_from :: "nat \<Rightarrow> 32 word list \<Rightarrow> byte list \<Rightarrow> log_event list" where
  "mismatches_from i gold res =
     map (\<lambda>i. Mismatch (gold ! i) i (int_at res i))
       (filter (\<lambda>i. gold ! i \<noteq> int_at res i) [i..<length gold])"

definition check_result_contract :: "32 word list \<Rightarrow> byte list \<Rightarrow> Correctness \<times> log_event list" where
  "check_result_contract gold res =
     (if gold = [] then (NOT_CHECKED, [GoldSize 0])
      else if length res div 4 < length gold then (BAD_LENGTH, [])
      else if mismatches_from 0 gold res = [] then (CORRECT, [])
      else (BAD_VALUES, take 20 (mismatches_from 0 gold res)))"

text \<open>The duration at position \<open>n div 2\<close> of the durations in ascending order.\<close>

definition median_duration :: "SqlStat list \<Rightarrow> int" where
  "median_duration rs = sort (map getTime rs) ! (length rs div 2)"

section \<open>A small configuration for the examples\<close>

text \<open>
  A harness laid out as \<^verbatim>\<open>allocateBuffers\<close> leaves it: slots 0 and 1 the matrix, slot 2
  the x vector, slot 3 the y vector, slots 4 and 5 the scalars, slot 6 the output, slot
  7 one temporary buffer; one int per vector. \<^verbatim>\<open>_input_idx\<close> is 2, the slot of the
  buffer that \<^verbatim>\<open>executeRun\<close> starts with as its input.
\<close>

definition example_run :: Run where
  "example_run = \<lparr>global1 = 4, global2 = 1, global3 = 1, local1 = 2, local2 = 1, local3 = 1\<rparr>"

definition example_harness :: Harness where
  "example_harness =
     \<lparr>args = \<lparr>m_idxs = [], m_vals = [], x_vect = [0, 0, 0, 0], y_vect = [0, 0, 0, 0],
              alpha = 1, beta = 0, output_arg = 4, temp_globals = [4], temp_locals = [],
              size_args = []\<rparr>,
      mem_manager = \<lparr>mm_matrix_idxs = 10, mm_matrix_vals = 11, mm_x_vect = 12, mm_y_vect = 13,
              mm_output = 14, mm_temp_global = [15], mm_input_host_buffer = [0, 0, 0, 0],
              mm_output_host_buffer = [0, 0, 0, 0], mm_temp_out_buffer = [0, 0, 0, 0],
              mm_input_idx = 2, mm_output_idx = 6\<rparr>,
      dev = \<lparr>kernel_args = [0 \<mapsto> GlobalArg 10, 1 \<mapsto> GlobalArg 11, 2 \<mapsto> GlobalArg 12,
                 3 \<mapsto> GlobalArg 13, 4 \<mapsto> ValueArg 1, 5 \<mapsto> ValueArg 0, 6 \<mapsto> GlobalArg 14,
                 7 \<mapsto> GlobalArg 15],
              set_arg_calls = [],
              mem = (\<lambda>_. [])(12 := [0, 0, 0, 0], 13 := [0, 0, 0, 0], 14 := [0, 0, 0, 0],
                               15 := [0, 0, 0, 0]),
              launches = 0\<rparr>,
      trials = 1, timeout = 100\<rparr>"

text \<open>
  Three kernels. The first reads the buffer bound to slot 2 and writes it to the buffer
  bound to slot 6 with the first byte raised by one up to 2, so that from 0 the third
  launch changes nothing; its launches take 5, 1 and 3 ticks. The second writes a value
  that alternates with the launch count into every buffer and never repeats itself.
  The third changes nothing.
\<close>

fun saturate :: "byte list \<Rightarrow> byte list" where
  "saturate [] = []"
| "saturate (b # bs) = (if b < 2 then b + 1 else b) # bs"

definition saturating_kernel :: kernel where
  "saturating_kernel run d =
     (case (kernel_args d 2, kernel_args d 6) of
        (Some (GlobalArg a), Some (GlobalArg b)) \<Rightarrow>
          (0, word_of_nat ([5, 1, 3] ! (launches d mod 3)), (mem d)(b := saturate (mem d a)))
      | _ \<Rightarrow> (0, 0, mem d))"

definition alternating_kernel :: kernel where
  "alternating_kernel run d = (0, 1, \<lambda>_. [if even (launches d) then 1 else 0, 0, 0, 0])"

definition idle_kernel :: kernel where
  "idle_kernel run d = (0, 7, mem d)"

text \<open>
  A fourth kernel, which raises the first byte of its input from 0 to 1 and leaves it
  there: from 0 its second launch is the first that changes nothing. Its launches
  take 4, 5, 6, ... ticks.
\<close>

fun settle :: "byte list \<Rightarrow> byte list" where
  "settle [] = []"
| "settle (b # bs) = (if b < 1 then 1 else b) # bs"

definition settling_kernel :: kernel where
  "settling_kernel run d =
     (case (kernel_args d 2, kernel_args d 6) of
        (Some (GlobalArg a), Some (GlobalArg b)) \<Rightarrow>
          (0, word_of_nat (4 + launches d), (mem d)(b := settle (mem d a)))
      | _ \<Rightarrow> (0, 0, mem d))"

text \<open>The example harness with a given output shadow.\<close>

definition with_output :: "byte list \<Rightarrow> Harness" where
  "with_output b = example_harness\<lparr>mem_manager := (mem_manager example_harness)\<lparr>mm_output_host_buffer := b\<rparr>\<rparr>"

text \<open>What holds after \<open>n\<close> passes of the loop under the alternating kernel.\<close>

definition alternating_inv :: "nat \<Rightarrow> loop_state \<Rightarrow> bool" where
  "alternating_inv n s \<longleftrightarrow>
     input_host_ptr s \<noteq> output_host_ptr s \<and> launches (dev (this s)) = n \<and>
     deref_host (input_host_ptr s) (this s) = [if even n then 0 else 1, 0, 0, 0] \<and>
     length (deref_host (output_host_ptr s) (this s)) = 4"

section \<open>Bytes, ints and the termination check\<close>

lemma le32_byte0: "ucast (le32 b0 b1 b2 b3) = b0"
  unfolding le32_def by (rule bit_word_eqI) (auto simp: bit_simps dest: bit_imp_le_length)
lemma le32_byte1: "ucast (drop_bit 8 (le32 b0 b1 b2 b3)) = b1"
  unfolding le32_def by (rule bit_word_eqI) (auto simp: bit_simps dest: bit_imp_le_length)
lemma le32_byte2: "ucast (drop_bit 16 (le32 b0 b1 b2 b3)) = b2"
  unfolding le32_def by (rule bit_word_eqI) (auto simp: bit_simps dest: bit_imp_le_length)
lemma le32_byte3: "ucast (drop_bit 24 (le32 b0 b1 b2 b3)) = b3"
  unfolding le32_def by (rule bit_word_eqI) (auto simp: bit_simps dest: bit_imp_le_length)

lemma le32_inj:
  "le32 a0 a1 a2 a3 = le32 b0 b1 b2 b3 \<longleftrightarrow> a0 = b0 \<and> a1 = b1 \<and> a2 = b2 \<and> a3 = b3"
  by (metis le32_byte0 le32_byte1 le32_byte2 le32_byte3)

lemma int_at_eq_iff:
  "int_at a k = int_at b k \<longleftrightarrow> (\<forall>r<4. a ! (4 * k + r) = b ! (4 * k + r))"
proof -
  have "(\<forall>r<4. a ! (4 * k + r) = b ! (4 * k + r)) \<longleftrightarrow>
        a ! (4 * k) = b ! (4 * k) \<and> a ! (4 * k + 1) = b ! (4 * k + 1) \<and>
        a ! (4 * k + 2) = b ! (4 * k + 2) \<and> a ! (4 * k + 3) = b ! (4 * k + 3)"
  proof
    assume h: "\<forall>r<4. a ! (4 * k + r) = b ! (4 * k + r)"
    from h[rule_format, of 0] h[rule_format, of 1] h[rule_format, of 2] h[rule_format, of 3]
    show "a ! (4 * k) = b ! (4 * k) \<and> a ! (4 * k + 1) = b ! (4 * k + 1) \<and>
        a ! (4 * k + 2) = b ! (4 * k + 2) \<and> a ! (4 * k + 3) = b ! (4 * k + 3)" by simp
  next
    assume h: "a ! (4 * k) = b ! (4 * k) \<and> a ! (4 * k + 1) = b ! (4 * k + 1) \<and>
        a ! (4 * k + 2) = b ! (4 * k + 2) \<and> a ! (4 * k + 3) = b ! (4 * k + 3)"
    show "\<forall>r<4. a ! (4 * k + r) = b ! (4 * k + r)"
    proof (intro allI impI)
      fix r :: nat assume "r < 4"
      then have "r = 0 \<or> r = 1 \<or> r = 2 \<or> r = 3" by arith
      with h show "a ! (4 * k + r) = b ! (4 * k + r)" by auto
    qed
  qed
  then show ?thesis by (simp add: int_at_def le32_inj)
qed

lemma prefix_bytes_iff:
  assumes "4 * m \<le> length a" "4 * m \<le> length b"
  shows "(\<forall>k<m. int_at a k = int_at b k) \<longleftrightarrow> take (4 * m) a = take (4 * m) b"
proof -
  have "take (4 * m) a = take (4 * m) b \<longleftrightarrow> (\<forall>j<4 * m. a ! j = b ! j)"
    using assms by (auto simp: list_eq_iff_nth_eq)
  also have "\<dots> \<longleftrightarrow> (\<forall>k<m. \<forall>r<4. a ! (4 * k + r) = b ! (4 * k + r))"
  proof
    assume h: "\<forall>j<4 * m. a ! j = b ! j"
    show "\<forall>k<m. \<forall>r<4. a ! (4 * k + r) = b ! (4 * k + r)"
    proof (intro allI impI)
      fix k r :: nat assume "k < m" "r < 4"
      then have "4 * k + r < 4 * m" by arith
      with h show "a ! (4 * k + r) = b ! (4 * k + r)" by blast
    qed
  next
    assume h: "\<forall>k<m. \<forall>r<4. a ! (4 * k + r) = b ! (4 * k + r)"
    show "\<forall>j<4 * m. a ! j = b ! j"
    proof (intro allI impI)
      fix j :: nat assume "j < 4 * m"
      then have "j div 4 < m" "j mod 4 < 4" by arith+
      with h have "a ! (4 * (j div 4) + j mod 4) = b ! (4 * (j div 4) + j mod 4)" by blast
      then show "a ! j = b ! j" by simp
    qed
  qed
  finally show ?thesis by (simp add: int_at_eq_iff)
qed

lemma unat_succ_32: "unat (i::32 word) < m \<Longrightarrow> m < 2 ^ 32 \<Longrightarrow> unat (i + 1) = unat i + 1"
proof -
  assume "unat i < m" "m < 2 ^ 32"
  then have "unat i + 1 < 2 ^ 32" by linarith
  then show ?thesis by (simp add: unat_word_ariths)
qed

lemma compare_loop_spec:
  assumes "min (length input div 4) (length outp div 4) < 2 ^ 32"
    and "unat i \<le> min (length input div 4) (length outp div 4)"
  shows "compare_loop input outp equal i =
     Some (equal \<and> (\<forall>k. unat i \<le> k \<and> k < min (length input div 4) (length outp div 4)
              \<longrightarrow> int_at input k = int_at outp k))"
  using assms
proof (induction "min (length input div 4) (length outp div 4) - unat i" arbitrary: i equal)
  case 0
  then show ?case by (subst compare_loop.simps) auto
next
  case (Suc d)
  let ?m = "min (length input div 4) (length outp div 4)"
  have lt: "unat i < ?m" using Suc.hyps(2) by linarith
  have u: "unat (i + 1) = unat i + 1"
    using lt Suc.prems(1) by (rule unat_succ_32)
  show ?case
  proof (cases equal)
    case False
    then show ?thesis by (subst compare_loop.simps) simp
  next
    case True
    have "compare_loop input outp equal i =
       compare_loop input outp (int_at input (unat i) = int_at outp (unat i)) (i + 1)"
      using True lt by (subst compare_loop.simps) simp
    also have "\<dots> = Some ((int_at input (unat i) = int_at outp (unat i)) \<and>
        (\<forall>k. unat (i + 1) \<le> k \<and> k < ?m \<longrightarrow> int_at input k = int_at outp k))"
    proof -
      have d: "d = ?m - unat (i + 1)" using Suc.hyps(2) u by arith
      have le: "unat (i + 1) \<le> ?m" using lt u by arith
      show ?thesis by (rule Suc.hyps(1)[OF d Suc.prems(1) le])
    qed
    also have "\<dots> = Some (equal \<and> (\<forall>k. unat i \<le> k \<and> k < ?m \<longrightarrow> int_at input k = int_at outp k))"
    proof -
      have "(\<forall>k. unat i \<le> k \<and> k < ?m \<longrightarrow> int_at input k = int_at outp k) \<longleftrightarrow>
            (int_at input (unat i) = int_at outp (unat i)) \<and>
            (\<forall>k. unat i + 1 \<le> k \<and> k < ?m \<longrightarrow> int_at input k = int_at outp k)"
      proof (intro iffI conjI allI impI)
        assume h: "\<forall>k. unat i \<le> k \<and> k < ?m \<longrightarrow> int_at input k = int_at outp k"
        from h lt show "int_at input (unat i) = int_at outp (unat i)" by blast
        fix k assume "unat i + 1 \<le> k \<and> k < ?m"
        then have "unat i \<le> k \<and> k < ?m" by arith
        with h show "int_at input k = int_at outp k" by blast
      next
        fix k
        assume h: "(int_at input (unat i) = int_at outp (unat i)) \<and>
            (\<forall>k. unat i + 1 \<le> k \<and> k < ?m \<longrightarrow> int_at input k = int_at outp k)"
          and k: "unat i \<le> k \<and> k < ?m"
        from k have "k = unat i \<or> (unat i + 1 \<le> k \<and> k < ?m)" by arith
        with h show "int_at input k = int_at outp k" by blast
      qed
      then show ?thesis using True u by simp
    qed
    finally show ?thesis .
  qed
qed

lemma should_terminate_iteration_bytes:
  assumes "min (length input div 4) (length outp div 4) < 2 ^ 32"
  shows "should_terminate_iteration input outp =
           Some (take (4 * min (length input div 4) (length outp div 4)) input =
                 take (4 * min (length input div 4) (length outp div 4)) outp)"
proof -
  let ?m = "min (length input div 4) (length outp div 4)"
  have 1: "should_terminate_iteration input outp = Some (\<forall>k<?m. int_at input k = int_at outp k)"
    unfolding should_terminate_iteration_def
    using compare_loop_spec[OF assms, of 0 True] by simp
  have "4 * ?m \<le> length input" "4 * ?m \<le> length outp" by arith+
  from prefix_bytes_iff[OF this] 1 show ?thesis by simp
qed

text \<open>
  Claim C1. For two host buffers of which the shorter holds fewer than \<open>2 ^ 32\<close> ints
  (the range of the loop's \<^verbatim>\<open>unsigned int\<close> counter; the buffers of the harness are
  allocated within \<^verbatim>\<open>max_alloc\<close>, one gigabyte), \<^verbatim>\<open>should_terminate_iteration\<close> returns,
  and it returns true exactly when the two buffers, read as vectors of int, agree at
  every position below the length of the shorter vector. The comparison is plain
  equality of the ints, which is equality of the bytes they are made of; the verdict
  is a function of the two byte sequences alone.
\<close>

theorem should_terminate_iteration_prefix_equal:
  assumes "min (length input div 4) (length outp div 4) < 2 ^ 32"
  shows "should_terminate_iteration input outp =
           Some (\<forall>k<min (length input div 4) (length outp div 4). int_at input k = int_at outp k)
         \<and> should_terminate_iteration input outp =
           Some (take (4 * min (length input div 4) (length outp div 4)) input =
                 take (4 * min (length input div 4) (length outp div 4)) outp)"
proof -
  let ?m = "min (length input div 4) (length outp div 4)"
  have 1: "should_terminate_iteration input outp = Some (\<forall>k<?m. int_at input k = int_at outp k)"
    unfolding should_terminate_iteration_def
    using compare_loop_spec[OF assms, of 0 True] by simp
  have "4 * ?m \<le> length input" "4 * ?m \<le> length outp" by arith+
  from prefix_bytes_iff[OF this] 1 show ?thesis by simp
qed

text \<open>Two equal ints against a longer buffer, and a difference in the second int.\<close>

theorem should_terminate_iteration_prefix_equal_witness:
  "should_terminate_iteration [1, 0, 0, 0, 2, 0, 0, 0] [1, 0, 0, 0, 2, 0, 0, 0, 9, 9, 9, 9] = Some True
   \<and> should_terminate_iteration [1, 0, 0, 0, 2, 0, 0, 0] [1, 0, 0, 0, 3, 0, 0, 0] = Some False"
  using should_terminate_iteration_prefix_equal[of "[1, 0, 0, 0, 2, 0, 0, 0]" "[1, 0, 0, 0, 2, 0, 0, 0, 9, 9, 9, 9]", THEN conjunct2]
    should_terminate_iteration_prefix_equal[of "[1, 0, 0, 0, 2, 0, 0, 0]" "[1, 0, 0, 0, 3, 0, 0, 0]", THEN conjunct2]
  by simp

section \<open>The correctness checker\<close>

lemma mismatches_from_end: "length gold \<le> i \<Longrightarrow> mismatches_from i gold res = []"
  by (simp add: mismatches_from_def)

lemma mismatches_from_step:
  "i < length gold \<Longrightarrow> mismatches_from i gold res =
     (if gold ! i \<noteq> int_at res i then [Mismatch (gold ! i) i (int_at res i)] else [])
       @ mismatches_from (Suc i) gold res"
  by (simp add: mismatches_from_def upt_conv_Cons)

lemma check_loop_spec:
  assumes "length gold < 2 ^ 32" and "unat i \<le> length gold" and "0 \<le> ec" and "ec < 20"
  shows "check_loop gold res i ec lg =
     Some (if 20 \<le> ec + int (length (mismatches_from (unat i) gold res))
           then (20, lg @ take (nat (20 - ec)) (mismatches_from (unat i) gold res))
           else (ec + int (length (mismatches_from (unat i) gold res)),
                 lg @ mismatches_from (unat i) gold res))"
  using assms
proof (induction "length gold - unat i" arbitrary: i ec lg)
  case 0
  then have "length gold \<le> unat i" by simp
  then show ?case using 0 by (subst check_loop.simps) (simp add: mismatches_from_end)
next
  case (Suc d)
  have lt: "unat i < length gold" using Suc.hyps(2) by linarith
  have u: "unat (i + 1) = Suc (unat i)"
    using unat_succ_32[OF lt Suc.prems(1)] by simp
  have d: "d = length gold - unat (i + 1)" using Suc.hyps(2) u by arith
  have le: "unat (i + 1) \<le> length gold" using lt u by arith
  note step = mismatches_from_step[OF lt, of res]
  show ?case
  proof (cases "gold ! unat i \<noteq> int_at res (unat i)")
    case False
    have "check_loop gold res i ec lg = check_loop gold res (i + 1) ec lg"
      using False lt by (subst check_loop.simps) simp
    also note Suc.hyps(1)[OF d Suc.prems(1) le Suc.prems(3) Suc.prems(4), of lg]
    finally show ?thesis using False step u by simp
  next
    case True
    let ?e = "Mismatch (gold ! unat i) (unat i) (int_at res (unat i))"
    show ?thesis
    proof (cases "ec + 1 = 20")
      case e20: True
      have "check_loop gold res i ec lg = Some (ec + 1, lg @ [?e])"
        using True lt e20 by (subst check_loop.simps) (simp add: Let_def)
      then show ?thesis using True step e20 by simp
    next
      case e20: False
      have "check_loop gold res i ec lg = check_loop gold res (i + 1) (ec + 1) (lg @ [?e])"
        using True lt e20 by (subst check_loop.simps) (simp add: Let_def)
      also have "\<dots> = Some (if 20 \<le> (ec + 1) + int (length (mismatches_from (unat (i + 1)) gold res))
           then (20, (lg @ [?e]) @ take (nat (20 - (ec + 1))) (mismatches_from (unat (i + 1)) gold res))
           else ((ec + 1) + int (length (mismatches_from (unat (i + 1)) gold res)),
                 (lg @ [?e]) @ mismatches_from (unat (i + 1)) gold res))"
        using Suc.prems(3) Suc.prems(4) e20
        by (intro Suc.hyps(1)[OF d Suc.prems(1) le]) auto
      finally show ?thesis using True step u Suc.prems(3) Suc.prems(4) e20
        by (auto simp: take_Cons' nat_diff_distrib)
    qed
  qed
qed

text \<open>
  Claim C6. For an output shadow of fewer than \<open>2 ^ 32\<close> ints (the range of the
  \<^verbatim>\<open>unsigned int\<close> that holds its length), \<^verbatim>\<open>check_result\<close> returns, and what it returns
  is the contract: not-checked for an empty gold vector; otherwise bad-length when the
  shadow holds fewer ints than the gold vector; otherwise the elements are compared in
  index order over the length of the gold vector, the first 20 mismatches at most are
  logged, and the verdict is bad-values when there is a mismatch and correct when
  there is none.
\<close>

theorem check_result_meets_contract:
  assumes "length (mm_output_host_buffer (mem_manager h)) div 4 < 2 ^ 32"
  shows "check_result gold h = Some (check_result_contract gold (mm_output_host_buffer (mem_manager h)))"
proof -
  let ?res = "mm_output_host_buffer (mem_manager h)"
  show ?thesis
  proof (cases "gold = [] \<or> length ?res div 4 < length gold")
    case True
    then show ?thesis using assms by (auto simp: check_result_def check_result_contract_def)
  next
    case False
    then have g: "length gold < 2 ^ 32" using assms by simp
    have "check_loop gold ?res 0 0 [] =
       Some (if 20 \<le> 0 + int (length (mismatches_from (unat (0::32 word)) gold ?res))
           then (20, [] @ take (nat (20 - 0)) (mismatches_from (unat (0::32 word)) gold ?res))
           else (0 + int (length (mismatches_from (unat (0::32 word)) gold ?res)),
                 [] @ mismatches_from (unat (0::32 word)) gold ?res))"
      by (rule check_loop_spec[OF g]) simp_all
    then show ?thesis using False assms
      by (auto simp: check_result_def check_result_contract_def Let_def)
  qed
qed

text \<open>The four examples of the specification.\<close>

theorem check_result_meets_contract_witness:
  "check_result [1, 2, 3] (with_output [1, 0, 0, 0, 2, 0, 0, 0]) = Some (BAD_LENGTH, [])
   \<and> check_result [1, 2, 3] (with_output [1, 0, 0, 0, 9, 0, 0, 0, 3, 0, 0, 0]) = Some (BAD_VALUES, [Mismatch 2 1 9])
   \<and> check_result [] (with_output [1, 0, 0, 0]) = Some (NOT_CHECKED, [GoldSize 0])
   \<and> check_result [1, 2, 3] (with_output [1, 0, 0, 0, 2, 0, 0, 0, 3, 0, 0, 0]) = Some (CORRECT, [])"
  using check_result_meets_contract[of "with_output [1, 0, 0, 0, 2, 0, 0, 0]" "[1, 2, 3]"]
    check_result_meets_contract[of "with_output [1, 0, 0, 0, 9, 0, 0, 0, 3, 0, 0, 0]" "[1, 2, 3]"]
    check_result_meets_contract[of "with_output [1, 0, 0, 0]" "[]"]
    check_result_meets_contract[of "with_output [1, 0, 0, 0, 2, 0, 0, 0, 3, 0, 0, 0]" "[1, 2, 3]"]
  by (simp add: with_output_def check_result_contract_def mismatches_from_def upt_rec int_at_def le32_def)

section \<open>What the device operations leave alone\<close>

lemma fillGlobalArg_frame [simp]:
  "mem_manager (fillGlobalArg n b h) = mem_manager h"
  "args (fillGlobalArg n b h) = args h"
  "trials (fillGlobalArg n b h) = trials h"
  "kernel_args (dev (fillGlobalArg n b h)) = kernel_args (dev h)"
  "set_arg_calls (dev (fillGlobalArg n b h)) = set_arg_calls (dev h)"
  "launches (dev (fillGlobalArg n b h)) = launches (dev h)"
  by (simp_all add: fillGlobalArg_def)

lemma resetTempBuffers_loop_frame [simp]:
  "mem_manager (resetTempBuffers_loop l i h) = mem_manager h"
  "args (resetTempBuffers_loop l i h) = args h"
  "trials (resetTempBuffers_loop l i h) = trials h"
  "kernel_args (dev (resetTempBuffers_loop l i h)) = kernel_args (dev h)"
  "set_arg_calls (dev (resetTempBuffers_loop l i h)) = set_arg_calls (dev h)"
  "launches (dev (resetTempBuffers_loop l i h)) = launches (dev h)"
  by (induction l i h rule: resetTempBuffers_loop.induct; simp)+

lemma resetTempBuffers_frame [simp]:
  "mem_manager (resetTempBuffers h) = mem_manager h"
  "args (resetTempBuffers h) = args h"
  "trials (resetTempBuffers h) = trials h"
  "kernel_args (dev (resetTempBuffers h)) = kernel_args (dev h)"
  "set_arg_calls (dev (resetTempBuffers h)) = set_arg_calls (dev h)"
  "launches (dev (resetTempBuffers h)) = launches (dev h)"
  by (simp_all add: resetTempBuffers_def)

lemma executeKernel_frame:
  assumes "executeKernel K run h = (time, h')"
  shows "mem_manager h' = mem_manager h"
    "args h' = args h"
    "trials h' = trials h"
    "kernel_args (dev h') = kernel_args (dev h)"
    "set_arg_calls (dev h') = set_arg_calls (dev h)"
    "launches (dev h') = launches (dev h) + 1"
  using assms by (auto simp: executeKernel_def split: prod.splits)

lemma setGlobalArg_frame [simp]:
  "mem_manager (setGlobalArg a m h) = mem_manager h"
  "args (setGlobalArg a m h) = args h"
  "trials (setGlobalArg a m h) = trials h"
  "mem (dev (setGlobalArg a m h)) = mem (dev h)"
  "launches (dev (setGlobalArg a m h)) = launches (dev h)"
  "kernel_args (dev (setGlobalArg a m h)) = (kernel_args (dev h))(a \<mapsto> GlobalArg m)"
  "set_arg_calls (dev (setGlobalArg a m h)) = set_arg_calls (dev h) @ [(a, GlobalArg m)]"
  by (simp_all add: setGlobalArg_def)

lemma assign_host_frame [simp]:
  "args (assign_host p v h) = args h"
  "trials (assign_host p v h) = trials h"
  "dev (assign_host p v h) = dev h"
  "deref_mem q (assign_host p v h) = deref_mem q h"
  "mm_input_idx (mem_manager (assign_host p v h)) = mm_input_idx (mem_manager h)"
  "mm_output_idx (mem_manager (assign_host p v h)) = mm_output_idx (mem_manager h)"
  "mm_x_vect (mem_manager (assign_host p v h)) = mm_x_vect (mem_manager h)"
  "mm_output (mem_manager (assign_host p v h)) = mm_output (mem_manager h)"
  "deref_host p' (assign_host p v h) = (if p' = p then v else deref_host p' h)"
  by (cases p; cases q; cases p'; simp)+

lemma deref_mem_cong:
  "mem_manager h = mem_manager h' \<Longrightarrow> deref_mem p h = deref_mem p h'"
  by (cases p) simp_all

lemma deref_host_cong:
  "mem_manager h = mem_manager h' \<Longrightarrow> deref_host p h = deref_host p h'"
  by (cases p) simp_all

lemma deref_setGlobalArg [simp]:
  "deref_mem p (setGlobalArg a m h) = deref_mem p h"
  "deref_host q (setGlobalArg a m h) = deref_host q h"
  by (cases p; cases q; simp)+

lemma length_readFromGlobalArg [simp]: "length (readFromGlobalArg a b h) = length a"
  by (simp add: readFromGlobalArg_def Let_def)

lemma writeToGlobalArg_frame [simp]:
  "mem_manager (writeToGlobalArg a b h) = mem_manager h"
  "args (writeToGlobalArg a b h) = args h"
  "trials (writeToGlobalArg a b h) = trials h"
  by (simp_all add: writeToGlobalArg_def)

lemma resetInputs_frame [simp]:
  "mem_manager (resetInputs h) = mem_manager h"
  by (simp add: resetInputs_def Let_def)

lemma writeToGlobalArg_dev [simp]:
  "kernel_args (dev (writeToGlobalArg a b h)) = kernel_args (dev h)"
  "mem (dev (writeToGlobalArg a b h)) = (mem (dev h))(b := a @ drop (length a) (mem (dev h) b))"
  by (simp_all add: writeToGlobalArg_def)

lemma resetInputs_args [simp]: "args (resetInputs h) = args h"
  by (simp add: resetInputs_def Let_def)

lemma resetInputs_kernel_args:
  "kernel_args (dev (resetInputs h)) = (kernel_args (dev h))
     (2 \<mapsto> GlobalArg (mm_x_vect (mem_manager h)), 3 \<mapsto> GlobalArg (mm_y_vect (mem_manager h)),
      6 \<mapsto> GlobalArg (mm_output (mem_manager h)))"
  by (simp add: resetInputs_def Let_def)

section \<open>One pass through the loop body\<close>

lemma loop_body_post:
  assumes "loop_body K run t s = Some s'"
  shows "input_mem_ptr s' = output_mem_ptr s" and "output_mem_ptr s' = input_mem_ptr s"
    and "input_host_ptr s' = output_host_ptr s" and "output_host_ptr s' = input_host_ptr s"
    and "iteration s' = iteration s + 1"
    and "\<exists>time. runtimes s' = runtimes s @
        [\<lparr>getTime = time, correctness = NOT_CHECKED, stat_global = global1 run,
          stat_local = local1 run, kind = RAW_RESULT, trial = Some t,
          iteration = Some (iteration s)\<rparr>]"
    and "launches (dev (this s')) = launches (dev (this s)) + 1"
    and "mm_x_vect (mem_manager (this s')) = mm_x_vect (mem_manager (this s))"
    and "mm_output (mem_manager (this s')) = mm_output (mem_manager (this s))"
    and "mm_input_idx (mem_manager (this s')) = mm_input_idx (mem_manager (this s))"
    and "mm_output_idx (mem_manager (this s')) = mm_output_idx (mem_manager (this s))"
    and "trials (this s') = trials (this s)"
    and "length (deref_host (output_host_ptr s) (this s')) = length (deref_host (output_host_ptr s) (this s))"
    and "input_host_ptr s \<noteq> output_host_ptr s \<Longrightarrow>
           deref_host (input_host_ptr s) (this s') = deref_host (input_host_ptr s) (this s)"
    and "should_terminate_iteration (deref_host (input_host_ptr s) (this s'))
           (deref_host (output_host_ptr s) (this s')) = Some (should_terminate s')"
    and "set_arg_calls (dev (this s')) = set_arg_calls (dev (this s)) @
        [(mm_input_idx (mem_manager (this s)), GlobalArg (deref_mem (output_mem_ptr s) (this s))),
         (mm_output_idx (mem_manager (this s)), GlobalArg (deref_mem (input_mem_ptr s) (this s))),
         (3, GlobalArg (deref_mem (output_mem_ptr s) (this s)))]"
    and "kernel_args (dev (this s')) = (kernel_args (dev (this s)))
        (mm_input_idx (mem_manager (this s)) \<mapsto> GlobalArg (deref_mem (output_mem_ptr s) (this s)),
         mm_output_idx (mem_manager (this s)) \<mapsto> GlobalArg (deref_mem (input_mem_ptr s) (this s)),
         3 \<mapsto> GlobalArg (deref_mem (output_mem_ptr s) (this s)))"
proof -
  define h1 where "h1 = (this s)\<lparr>mem_manager := (mem_manager (this s))
      \<lparr>mm_temp_out_buffer := deref_host (output_host_ptr s) (this s) @
         drop (length (deref_host (output_host_ptr s) (this s)))
           (mm_temp_out_buffer (mem_manager (this s)))\<rparr>\<rparr>"
  obtain time h3 where ek: "executeKernel K run (resetTempBuffers h1) = (time, h3)"
    by (cases "executeKernel K run (resetTempBuffers h1)")
  note fr = executeKernel_frame[OF ek]
  have mm3: "mem_manager h3 = mem_manager h1" using fr by simp
  have dm: "\<And>p. deref_mem p h3 = deref_mem p (this s)"
    by (case_tac p) (simp_all add: mm3 h1_def)
  have dh: "\<And>p. deref_host p h3 = deref_host p (this s)"
    by (case_tac p) (simp_all add: mm3 h1_def)
  have ix: "mm_input_idx (mem_manager h3) = mm_input_idx (mem_manager (this s))"
    "mm_output_idx (mem_manager h3) = mm_output_idx (mem_manager (this s))"
    "mm_x_vect (mem_manager h3) = mm_x_vect (mem_manager (this s))"
    "mm_output (mem_manager h3) = mm_output (mem_manager (this s))"
    by (simp_all add: mm3 h1_def)
  have dv: "kernel_args (dev h3) = kernel_args (dev (this s))"
    "set_arg_calls (dev h3) = set_arg_calls (dev (this s))"
    "launches (dev h3) = launches (dev (this s)) + 1"
    "trials h3 = trials (this s)"
    using fr by (simp_all add: h1_def)
  from assms ek obtain st where
    st: "should_terminate_iteration
           (deref_host (input_host_ptr s) (assign_host (output_host_ptr s)
              (readFromGlobalArg (deref_host (output_host_ptr s) h3)
                 (deref_mem (output_mem_ptr s) h3) h3) h3))
           (deref_host (output_host_ptr s) (assign_host (output_host_ptr s)
              (readFromGlobalArg (deref_host (output_host_ptr s) h3)
                 (deref_mem (output_mem_ptr s) h3) h3) h3)) = Some st"
    and s': "s' = \<lparr>this = setGlobalArg 3 (deref_mem (output_mem_ptr s) h3)
                (setGlobalArg (mm_output_idx (mem_manager h3)) (deref_mem (input_mem_ptr s) h3)
                  (setGlobalArg (mm_input_idx (mem_manager h3)) (deref_mem (output_mem_ptr s) h3)
                    (assign_host (output_host_ptr s)
                      (readFromGlobalArg (deref_host (output_host_ptr s) h3)
                         (deref_mem (output_mem_ptr s) h3) h3) h3))),
              input_mem_ptr = output_mem_ptr s, output_mem_ptr = input_mem_ptr s,
              input_host_ptr = output_host_ptr s, output_host_ptr = input_host_ptr s,
              should_terminate = st, iteration = iteration s + 1,
              runtimes = runtimes s @
                [\<lparr>getTime = time, correctness = NOT_CHECKED, stat_global = global1 run,
                  stat_local = local1 run, kind = RAW_RESULT, trial = Some t,
                  iteration = Some (iteration s)\<rparr>]\<rparr>"
    unfolding loop_body_def Let_def assertBuffersNotEqual_def h1_def[symmetric]
    by (auto split: prod.splits Option.bind_splits)
  show "input_mem_ptr s' = output_mem_ptr s" "output_mem_ptr s' = input_mem_ptr s"
    "input_host_ptr s' = output_host_ptr s" "output_host_ptr s' = input_host_ptr s"
    "iteration s' = iteration s + 1"
    by (simp_all add: s')
  show "\<exists>time. runtimes s' = runtimes s @
        [\<lparr>getTime = time, correctness = NOT_CHECKED, stat_global = global1 run,
          stat_local = local1 run, kind = RAW_RESULT, trial = Some t,
          iteration = Some (iteration s)\<rparr>]"
    by (simp add: s')
  show "launches (dev (this s')) = launches (dev (this s)) + 1"
    "trials (this s') = trials (this s)"
    by (simp_all add: s' dv)
  show "mm_x_vect (mem_manager (this s')) = mm_x_vect (mem_manager (this s))"
    "mm_output (mem_manager (this s')) = mm_output (mem_manager (this s))"
    "mm_input_idx (mem_manager (this s')) = mm_input_idx (mem_manager (this s))"
    "mm_output_idx (mem_manager (this s')) = mm_output_idx (mem_manager (this s))"
    by (simp_all add: s' ix)
  show "length (deref_host (output_host_ptr s) (this s')) = length (deref_host (output_host_ptr s) (this s))"
    by (simp add: s' dh)
  show "input_host_ptr s \<noteq> output_host_ptr s \<Longrightarrow>
           deref_host (input_host_ptr s) (this s') = deref_host (input_host_ptr s) (this s)"
    by (simp add: s' dh)
  show "should_terminate_iteration (deref_host (input_host_ptr s) (this s'))
           (deref_host (output_host_ptr s) (this s')) = Some (should_terminate s')"
    using st by (simp add: s')
  show "set_arg_calls (dev (this s')) = set_arg_calls (dev (this s)) @
        [(mm_input_idx (mem_manager (this s)), GlobalArg (deref_mem (output_mem_ptr s) (this s))),
         (mm_output_idx (mem_manager (this s)), GlobalArg (deref_mem (input_mem_ptr s) (this s))),
         (3, GlobalArg (deref_mem (output_mem_ptr s) (this s)))]"
    by (simp add: s' dv dm ix)
  show "kernel_args (dev (this s')) = (kernel_args (dev (this s)))
        (mm_input_idx (mem_manager (this s)) \<mapsto> GlobalArg (deref_mem (output_mem_ptr s) (this s)),
         mm_output_idx (mem_manager (this s)) \<mapsto> GlobalArg (deref_mem (input_mem_ptr s) (this s)),
         3 \<mapsto> GlobalArg (deref_mem (output_mem_ptr s) (this s)))"
    by (simp add: s' dv dm ix)
qed

lemma loop_body_in_range:
  assumes "counter_in_range s"
  shows "\<exists>s'. loop_body K run t s = Some s'"
proof -
  obtain time h3 where ek: "executeKernel K run (resetTempBuffers ((this s)\<lparr>mem_manager := (mem_manager (this s))
      \<lparr>mm_temp_out_buffer := deref_host (output_host_ptr s) (this s) @
         drop (length (deref_host (output_host_ptr s) (this s)))
           (mm_temp_out_buffer (mem_manager (this s)))\<rparr>\<rparr>)) = (time, h3)"
    by (cases "executeKernel K run (resetTempBuffers ((this s)\<lparr>mem_manager := (mem_manager (this s))
      \<lparr>mm_temp_out_buffer := deref_host (output_host_ptr s) (this s) @
         drop (length (deref_host (output_host_ptr s) (this s)))
           (mm_temp_out_buffer (mem_manager (this s)))\<rparr>\<rparr>))")
  note fr = executeKernel_frame[OF ek]
  have dh: "\<And>p. deref_host p h3 = deref_host p (this s)"
    by (case_tac p) (simp_all add: fr)
  let ?new = "readFromGlobalArg (deref_host (output_host_ptr s) h3) (deref_mem (output_mem_ptr s) h3) h3"
  have "min (length (deref_host (input_host_ptr s) (this s)) div 4) (length ?new div 4) < 2 ^ 32"
    using assms by (simp add: counter_in_range_def dh)
  from should_terminate_iteration_bytes[OF this]
  obtain st where "should_terminate_iteration (deref_host (input_host_ptr s) (this s)) ?new = Some st"
    by blast
  then show ?thesis
    using ek assms unfolding loop_body_def Let_def assertBuffersNotEqual_def counter_in_range_def
    by (simp add: dh split: prod.splits)
qed

lemma loop_body_keeps_range:
  assumes "counter_in_range s" and "loop_body K run t s = Some s'"
  shows "counter_in_range s'" and "should_terminate s' = shadows_agree s'"
proof -
  note p = loop_body_post[OF assms(2)]
  have ne: "input_host_ptr s \<noteq> output_host_ptr s" using assms(1) by (simp add: counter_in_range_def)
  have a: "deref_host (output_host_ptr s') (this s') = deref_host (input_host_ptr s) (this s)"
    using p(4) p(14)[OF ne] by simp
  have b: "length (deref_host (input_host_ptr s') (this s')) = length (deref_host (output_host_ptr s) (this s))"
    using p(3) p(13) by simp
  show r: "counter_in_range s'"
    using assms(1) a b p(3) p(4) by (auto simp: counter_in_range_def min.commute)
  have "should_terminate_iteration (deref_host (output_host_ptr s') (this s'))
           (deref_host (input_host_ptr s') (this s')) = Some (should_terminate s')"
    using p(15) p(3) p(4) by simp
  moreover have "min (length (deref_host (output_host_ptr s') (this s')) div 4)
        (length (deref_host (input_host_ptr s') (this s')) div 4) < 2 ^ 32"
    using r by (simp add: counter_in_range_def min.commute)
  ultimately show "should_terminate s' = shadows_agree s'"
    using should_terminate_iteration_bytes[of "deref_host (output_host_ptr s') (this s')"
        "deref_host (input_host_ptr s') (this s')"]
    by (auto simp: shadows_agree_def Let_def min.commute)
qed

section \<open>Unrolling the loop\<close>

lemma iterations_front:
  "iterations K run t (Suc n) s = Option.bind (loop_body K run t s) (iterations K run t n)"
proof (induction n)
  case 0
  show ?case by simp
next
  case (Suc n)
  have "iterations K run t (Suc (Suc n)) s =
        Option.bind (iterations K run t (Suc n) s) (loop_body K run t)" by simp
  also have "\<dots> = Option.bind (Option.bind (loop_body K run t s) (iterations K run t n)) (loop_body K run t)"
    by (simp only: Suc.IH)
  also have "\<dots> = Option.bind (loop_body K run t s) (iterations K run t (Suc n))"
    by (cases "loop_body K run t s") simp_all
  finally show ?case .
qed

lemma iterations_SucD:
  assumes "iterations K run t (Suc n) s = Some s'"
  obtains s1 where "iterations K run t n s = Some s1" "loop_body K run t s1 = Some s'"
  using assms by (auto split: Option.bind_splits)

lemma iterations_frontD:
  assumes "iterations K run t (Suc n) s = Some s'"
  obtains s1 where "loop_body K run t s = Some s1" "iterations K run t n s1 = Some s'"
  using assms unfolding iterations_front by (auto split: Option.bind_splits)

lemma iterations_after_body:
  "loop_body K run t s = Some s1 \<Longrightarrow> iterations K run t (Suc n) s = iterations K run t n s1"
  by (simp add: iterations_front del: iterations.simps)

lemma exits_at_0:
  "exits_at K run t s 0 s' \<longleftrightarrow> loop_body K run t s = Some s' \<and> should_terminate s'"
  by (simp add: exits_at_def)

lemma exits_at_Suc:
  "exits_at K run t s (Suc n) s' \<longleftrightarrow>
     (\<exists>s1. loop_body K run t s = Some s1 \<and> \<not> should_terminate s1 \<and> exits_at K run t s1 n s')"
proof
  assume e: "exits_at K run t s (Suc n) s'"
  then have it: "iterations K run t (Suc (Suc n)) s = Some s'" and st: "should_terminate s'"
    and no: "\<And>m s''. m < Suc n \<Longrightarrow> iterations K run t (Suc m) s = Some s'' \<Longrightarrow> \<not> should_terminate s''"
    by (auto simp: exits_at_def)
  from it obtain s1 where b: "loop_body K run t s = Some s1"
    and r: "iterations K run t (Suc n) s1 = Some s'"
    by (rule iterations_frontD)
  have "\<not> should_terminate s1" using no[of 0 s1] b by simp
  moreover have "exits_at K run t s1 n s'"
    unfolding exits_at_def
  proof (intro conjI allI impI)
    show "iterations K run t (Suc n) s1 = Some s'" by (rule r)
    show "should_terminate s'" by (rule st)
    fix m s'' assume "m < n" "iterations K run t (Suc m) s1 = Some s''"
    then have "iterations K run t (Suc (Suc m)) s = Some s''"
      using iterations_after_body[OF b, of "Suc m"] by simp
    with no[of "Suc m" s''] \<open>m < n\<close> show "\<not> should_terminate s''" by simp
  qed
  ultimately show "\<exists>s1. loop_body K run t s = Some s1 \<and> \<not> should_terminate s1 \<and> exits_at K run t s1 n s'"
    using b by blast
next
  assume "\<exists>s1. loop_body K run t s = Some s1 \<and> \<not> should_terminate s1 \<and> exits_at K run t s1 n s'"
  then obtain s1 where b: "loop_body K run t s = Some s1" and n1: "\<not> should_terminate s1"
    and e: "exits_at K run t s1 n s'" by blast
  show "exits_at K run t s (Suc n) s'"
    unfolding exits_at_def
  proof (intro conjI allI impI)
    show "iterations K run t (Suc (Suc n)) s = Some s'"
      using iterations_after_body[OF b, of "Suc n"] e by (simp add: exits_at_def)
    show "should_terminate s'" using e by (simp add: exits_at_def)
    fix m s'' assume m: "m < Suc n" and i: "iterations K run t (Suc m) s = Some s''"
    show "\<not> should_terminate s''"
    proof (cases m)
      case 0
      then show ?thesis using i b n1 by simp
    next
      case (Suc m')
      then have "iterations K run t (Suc m') s1 = Some s''"
        using i iterations_after_body[OF b, of "Suc m'"] by simp
      then show ?thesis using e m Suc by (auto simp: exits_at_def)
    qed
  qed
qed

lemma run_loop_exits:
  "exits_at K run t s n s' \<Longrightarrow> run_loop K run t s = Some s'"
proof (induction n arbitrary: s)
  case 0
  then show ?case by (subst run_loop.simps) (simp add: exits_at_0)
next
  case (Suc n)
  then obtain s1 where b: "loop_body K run t s = Some s1" and n1: "\<not> should_terminate s1"
    and e: "exits_at K run t s1 n s'" by (auto simp: exits_at_Suc)
  have "run_loop K run t s = run_loop K run t s1"
    using b n1 by (subst run_loop.simps) simp
  then show ?case using Suc.IH[OF e] by simp
qed

lemma run_loop_SomeD:
  assumes "run_loop K run t s = Some s'"
  shows "\<exists>n. exits_at K run t s n s'"
proof (rule run_loop.raw_induct[where P = "\<lambda>K run t s s'. \<exists>n. exits_at K run t s n s'", OF _ assms])
  fix f K run t s y
  assume IH: "\<And>K run t s y. f K run t s = Some y \<Longrightarrow> \<exists>n. exits_at K run t s n y"
    and eq: "loop_body K run t s \<bind> (\<lambda>s'. if \<not> should_terminate s' then f K run t s' else Some s') = Some y"
  from eq obtain s1 where b: "loop_body K run t s = Some s1"
    and r: "(if \<not> should_terminate s1 then f K run t s1 else Some s1) = Some y"
    by (auto split: Option.bind_splits)
  show "\<exists>n. exits_at K run t s n y"
  proof (cases "should_terminate s1")
    case True
    then have "exits_at K run t s 0 y" using b r by (simp add: exits_at_0)
    then show ?thesis ..
  next
    case False
    then have "f K run t s1 = Some y" using r by simp
    from IH[OF this] obtain n where "exits_at K run t s1 n y" ..
    then have "exits_at K run t s (Suc n) y" using b False by (auto simp: exits_at_Suc)
    then show ?thesis ..
  qed
qed

lemma run_loop_Some_iff:
  "run_loop K run t s = Some s' \<longleftrightarrow> (\<exists>n. exits_at K run t s n s')"
  using run_loop_exits run_loop_SomeD by blast

lemma exits_at_exists:
  "iterations K run t (Suc n) s = Some s' \<Longrightarrow> should_terminate s' \<Longrightarrow>
     \<exists>m s''. exits_at K run t s m s''"
proof (induction n arbitrary: s' rule: less_induct)
  case (less n)
  show ?case
  proof (cases "\<exists>m<n. \<exists>s''. iterations K run t (Suc m) s = Some s'' \<and> should_terminate s''")
    case True
    then obtain m s'' where "m < n" "iterations K run t (Suc m) s = Some s''" "should_terminate s''"
      by blast
    then show ?thesis by (rule less.IH)
  next
    case False
    then have "exits_at K run t s n s'"
      unfolding exits_at_def using less.prems by blast
    then show ?thesis by blast
  qed
qed

lemma executeRun_Some_iff:
  "executeRun K run t h = Some (rs, h') \<longleftrightarrow>
     (\<exists>n s'. exits_at K run t (executeRun_entry h) n s' \<and> rs = runtimes s' \<and> h' = this s')"
proof
  assume "executeRun K run t h = Some (rs, h')"
  then obtain s' where "run_loop K run t (executeRun_entry h) = Some s'" "rs = runtimes s'" "h' = this s'"
    by (auto simp: executeRun_def split: Option.bind_splits)
  then show "\<exists>n s'. exits_at K run t (executeRun_entry h) n s' \<and> rs = runtimes s' \<and> h' = this s'"
    using run_loop_SomeD by blast
next
  assume "\<exists>n s'. exits_at K run t (executeRun_entry h) n s' \<and> rs = runtimes s' \<and> h' = this s'"
  then obtain n s' where "exits_at K run t (executeRun_entry h) n s'" "rs = runtimes s'" "h' = this s'"
    by blast
  then show "executeRun K run t h = Some (rs, h')"
    using run_loop_exits[of K run t "executeRun_entry h" n s'] by (simp add: executeRun_def)
qed

section \<open>Invariants of the passes\<close>

lemma iterations_runtimes:
  assumes "iterations K run t n s = Some s'"
  shows "\<exists>times. length times = n \<and>
           runtimes s' = runtimes s @
             map (\<lambda>(j, time). raw_record run t (iteration s + int j) time) (zip [0..<n] times)"
  using assms
proof (induction n arbitrary: s')
  case 0
  then show ?case by simp
next
  case (Suc n)
  from Suc.prems obtain s1 where i: "iterations K run t n s = Some s1"
    and b: "loop_body K run t s1 = Some s'" by (rule iterations_SucD)
  from Suc.IH[OF i] obtain times where l: "length times = n"
    and r: "runtimes s1 = runtimes s @
             map (\<lambda>(j, time). raw_record run t (iteration s + int j) time) (zip [0..<n] times)"
    by blast
  have it: "iteration s1 = iteration s + int n"
    using i
  proof (induction n arbitrary: s1)
    case 0 then show ?case by simp
  next
    case (Suc n)
    from Suc.prems obtain s0 where "iterations K run t n s = Some s0"
      "loop_body K run t s0 = Some s1" by (rule iterations_SucD)
    then show ?case using Suc.IH[of s0] loop_body_post(5)[of K run t s0 s1] by simp
  qed
  from loop_body_post(6)[OF b] obtain time where
    "runtimes s' = runtimes s1 @ [raw_record run t (iteration s1) time]"
    by (auto simp: raw_record_def)
  then have "runtimes s' = runtimes s @
      map (\<lambda>(j, time). raw_record run t (iteration s + int j) time) (zip [0..<Suc n] (times @ [time]))"
    using r l it by simp
  moreover have "length (times @ [time]) = Suc n" using l by simp
  ultimately show ?case by blast
qed

lemma iterations_pointers:
  assumes "iterations K run t n s = Some s'"
  shows "input_mem_ptr s' = (if even n then input_mem_ptr s else output_mem_ptr s)"
    and "output_mem_ptr s' = (if even n then output_mem_ptr s else input_mem_ptr s)"
    and "input_host_ptr s' = (if even n then input_host_ptr s else output_host_ptr s)"
    and "output_host_ptr s' = (if even n then output_host_ptr s else input_host_ptr s)"
    and "mm_x_vect (mem_manager (this s')) = mm_x_vect (mem_manager (this s))"
    and "mm_output (mem_manager (this s')) = mm_output (mem_manager (this s))"
    and "launches (dev (this s')) = launches (dev (this s)) + n"
  using assms
proof (induction n arbitrary: s')
  case 0
  {
    case 1 then show ?case by simp
  next
    case 2 then show ?case by simp
  next
    case 3 then show ?case by simp
  next
    case 4 then show ?case by simp
  next
    case 5 then show ?case by simp
  next
    case 6 then show ?case by simp
  next
    case 7 then show ?case by simp
  }
next
  case (Suc n)
  {
    case 1
    then obtain s1 where i: "iterations K run t n s = Some s1"
      and b: "loop_body K run t s1 = Some s'" by (rule iterations_SucD)
    show ?case using Suc.IH(2)[OF i] loop_body_post(1)[OF b] by simp
  next
    case 2
    then obtain s1 where i: "iterations K run t n s = Some s1"
      and b: "loop_body K run t s1 = Some s'" by (rule iterations_SucD)
    show ?case using Suc.IH(1)[OF i] loop_body_post(2)[OF b] by simp
  next
    case 3
    then obtain s1 where i: "iterations K run t n s = Some s1"
      and b: "loop_body K run t s1 = Some s'" by (rule iterations_SucD)
    show ?case using Suc.IH(4)[OF i] loop_body_post(3)[OF b] by simp
  next
    case 4
    then obtain s1 where i: "iterations K run t n s = Some s1"
      and b: "loop_body K run t s1 = Some s'" by (rule iterations_SucD)
    show ?case using Suc.IH(3)[OF i] loop_body_post(4)[OF b] by simp
  next
    case 5
    then obtain s1 where i: "iterations K run t n s = Some s1"
      and b: "loop_body K run t s1 = Some s'" by (rule iterations_SucD)
    show ?case using Suc.IH(5)[OF i] loop_body_post(8)[OF b] by simp
  next
    case 6
    then obtain s1 where i: "iterations K run t n s = Some s1"
      and b: "loop_body K run t s1 = Some s'" by (rule iterations_SucD)
    show ?case using Suc.IH(6)[OF i] loop_body_post(9)[OF b] by simp
  next
    case 7
    then obtain s1 where i: "iterations K run t n s = Some s1"
      and b: "loop_body K run t s1 = Some s'" by (rule iterations_SucD)
    show ?case using Suc.IH(7)[OF i] loop_body_post(7)[OF b] by simp
  }
qed

lemma iterations_kernel_args:
  assumes "iterations K run t n s = Some s'"
  shows "mm_input_idx (mem_manager (this s')) = mm_input_idx (mem_manager (this s))
       \<and> mm_output_idx (mem_manager (this s')) = mm_output_idx (mem_manager (this s))
       \<and> length (set_arg_calls (dev (this s'))) = length (set_arg_calls (dev (this s))) + 3 * n
       \<and> length (runtimes s') = length (runtimes s) + n
       \<and> (\<forall>slot. slot \<notin> {mm_input_idx (mem_manager (this s)), mm_output_idx (mem_manager (this s)), 3}
             \<longrightarrow> kernel_args (dev (this s')) slot = kernel_args (dev (this s)) slot)"
  using assms
proof (induction n arbitrary: s')
  case 0
  then show ?case by simp
next
  case (Suc n)
  from Suc.prems obtain s1 where i: "iterations K run t n s = Some s1"
    and b: "loop_body K run t s1 = Some s'" by (rule iterations_SucD)
  note p = loop_body_post[OF b]
  from p(6) have "length (runtimes s') = length (runtimes s1) + 1" by auto
  then show ?case using Suc.IH[OF i] p(10) p(11) p(16) p(17) by simp
qed

lemma iterations_in_range:
  assumes "counter_in_range s"
  shows "\<exists>s'. iterations K run t n s = Some s' \<and> counter_in_range s'"
proof (induction n)
  case 0
  then show ?case using assms by simp
next
  case (Suc n)
  then obtain s1 where i: "iterations K run t n s = Some s1" and r: "counter_in_range s1" by blast
  from loop_body_in_range[OF r] obtain s' where b: "loop_body K run t s1 = Some s'" by blast
  from loop_body_keeps_range(1)[OF r b] i b show ?case by simp
qed

lemma iterations_flag:
  assumes "counter_in_range s" and "iterations K run t (Suc n) s = Some s'"
  shows "should_terminate s' = shadows_agree s'"
proof -
  from assms(2) obtain s1 where i: "iterations K run t n s = Some s1"
    and b: "loop_body K run t s1 = Some s'" by (rule iterations_SucD)
  from iterations_in_range[OF assms(1), of K run t n] i have "counter_in_range s1" by simp
  from loop_body_keeps_range(2)[OF this b] show ?thesis .
qed

lemma entry_in_range:
  "min (length (mm_input_host_buffer (mem_manager h)) div 4)
       (length (mm_output_host_buffer (mem_manager h)) div 4) < 2 ^ 32
   \<Longrightarrow> counter_in_range (executeRun_entry h)"
  by (simp add: counter_in_range_def executeRun_entry_def)

lemma executeRun_nonempty:
  assumes "executeRun K run t h = Some (rs, h')"
  shows "rs \<noteq> []" and "launches (dev h) < launches (dev h')"
proof -
  from assms obtain n s' where e: "exits_at K run t (executeRun_entry h) n s'"
    and rs: "rs = runtimes s'" and h': "h' = this s'"
    by (auto simp: executeRun_Some_iff)
  then have i: "iterations K run t (Suc n) (executeRun_entry h) = Some s'" by (simp add: exits_at_def)
  from iterations_runtimes[OF i] show "rs \<noteq> []" using rs by auto
  from iterations_pointers(7)[OF i] show "launches (dev h) < launches (dev h')"
    using h' by (simp add: executeRun_entry_def)
qed


section \<open>The examples, evaluated\<close>

lemmas model_defs = loop_body_def executeRun_entry_def executeKernel_def setGlobalArg_def
  readFromGlobalArg_def resetTempBuffers_def fillGlobalArg_def writeToGlobalArg_def
  assertBuffersNotEqual_def should_terminate_iteration_def int_at_def le32_def
  example_run_def example_harness_def saturating_kernel_def Let_def

lemmas step_defs = model_defs compare_loop.simps

lemma saturating_iterations:
  "map_option (\<lambda>s. (should_terminate s, shadows_agree s, output_mem_ptr s, input_mem_ptr s))
     (iterations saturating_kernel example_run 0 (Suc 0) (executeRun_entry example_harness))
     = Some (False, False, Addr_x_vect, Addr_output)"
  "map_option (\<lambda>s. (should_terminate s, shadows_agree s, output_mem_ptr s, input_mem_ptr s))
     (iterations saturating_kernel example_run 0 (Suc (Suc 0)) (executeRun_entry example_harness))
     = Some (False, False, Addr_output, Addr_x_vect)"
  "map_option (\<lambda>s. (should_terminate s, shadows_agree s, output_mem_ptr s, input_mem_ptr s))
     (iterations saturating_kernel example_run 0 (Suc (Suc (Suc 0))) (executeRun_entry example_harness))
     = Some (True, True, Addr_x_vect, Addr_output)"
  by (simp_all add: step_defs shadows_agree_def)

lemma std_insert_SqlStat_compare:
  "std_insert SqlStat_compare x xs = insort_key getTime x xs"
  by (induction xs) (auto simp: SqlStat_compare_def)

lemma std_sort_SqlStat_compare [simp]:
  "std_sort SqlStat_compare xs = sort_key getTime xs"
  by (induction xs) (simp_all add: std_sort_def std_insert_SqlStat_compare)

lemma saturating_run:
  "\<exists>h'. executeRun saturating_kernel example_run 0 example_harness =
      Some ([raw_record example_run 0 0 5, raw_record example_run 0 1 1, raw_record example_run 0 2 3], h')
    \<and> mm_output_host_buffer (mem_manager h') = [2, 0, 0, 0]"
  by (simp add: executeRun_def run_loop.simps model_defs compare_loop.simps raw_record_def)

lemma saturating_benchmark:
  "\<exists>h'. benchmark saturating_kernel example_run example_harness =
      Some (Inr ([[raw_record example_run 0 1 1, raw_record example_run 0 2 3, raw_record example_run 0 0 5,
         \<lparr>getTime = 3, correctness = NOT_CHECKED, stat_global = global1 example_run,
           stat_local = local1 example_run, kind = MEDIAN_RESULT, trial = Some 0, iteration = None\<rparr>,
         \<lparr>getTime = 12, correctness = NOT_CHECKED, stat_global = global1 example_run,
           stat_local = local1 example_run, kind = MULTI_ITERATION_SUM, trial = None, iteration = None\<rparr>]], h'))
    \<and> mm_output_host_buffer (mem_manager h') = [2, 0, 0, 0]"
proof -
  from saturating_run obtain h1 where
    e: "executeRun saturating_kernel example_run 0 example_harness =
      Some ([raw_record example_run 0 0 5, raw_record example_run 0 1 1, raw_record example_run 0 2 3], h1)"
    and o: "mm_output_host_buffer (mem_manager h1) = [2, 0, 0, 0]" by blast
  have t: "[0..<trials example_harness] = [0]" by (simp add: example_harness_def)
  have r: "trial_records example_run 0
      [raw_record example_run 0 0 5, raw_record example_run 0 1 1, raw_record example_run 0 2 3] =
     Inr [raw_record example_run 0 1 1, raw_record example_run 0 2 3, raw_record example_run 0 0 5,
         \<lparr>getTime = 3, correctness = NOT_CHECKED, stat_global = global1 example_run,
           stat_local = local1 example_run, kind = MEDIAN_RESULT, trial = Some 0, iteration = None\<rparr>,
         \<lparr>getTime = 12, correctness = NOT_CHECKED, stat_global = global1 example_run,
           stat_local = local1 example_run, kind = MULTI_ITERATION_SUM, trial = None, iteration = None\<rparr>]"
    by (simp add: trial_records_def trial_records_after_sort_def Let_def raw_record_def)
  have "benchmark saturating_kernel example_run example_harness =
      Some (Inr ([[raw_record example_run 0 1 1, raw_record example_run 0 2 3, raw_record example_run 0 0 5,
         \<lparr>getTime = 3, correctness = NOT_CHECKED, stat_global = global1 example_run,
           stat_local = local1 example_run, kind = MEDIAN_RESULT, trial = Some 0, iteration = None\<rparr>,
         \<lparr>getTime = 12, correctness = NOT_CHECKED, stat_global = global1 example_run,
           stat_local = local1 example_run, kind = MULTI_ITERATION_SUM, trial = None, iteration = None\<rparr>]],
       resetInputs h1))"
    unfolding benchmark_def t by (simp add: e r)
  moreover have "mm_output_host_buffer (mem_manager (resetInputs h1)) = [2, 0, 0, 0]"
    using o by simp
  ultimately show ?thesis by blast
qed

lemma settling_first_trial:
  "\<exists>h1. executeRun settling_kernel example_run 0 (example_harness\<lparr>trials := 2\<rparr>) =
      Some ([raw_record example_run 0 0 4, raw_record example_run 0 1 5], h1)
    \<and> mem_manager h1 = (mem_manager example_harness)
         \<lparr>mm_input_host_buffer := [1, 0, 0, 0], mm_output_host_buffer := [1, 0, 0, 0]\<rparr>
    \<and> args h1 = args example_harness \<and> mem (dev h1) 12 = [1, 0, 0, 0]"
  by (simp add: executeRun_def run_loop.simps step_defs settling_kernel_def raw_record_def)

lemma settling_later_trial:
  assumes "mem_manager h = (mem_manager example_harness)
         \<lparr>mm_input_host_buffer := [1, 0, 0, 0], mm_output_host_buffer := [1, 0, 0, 0]\<rparr>"
    and "args h = args example_harness"
    and "kernel_args (dev h) 2 = Some (GlobalArg 12)"
    and "kernel_args (dev h) 6 = Some (GlobalArg 14)"
    and "mem (dev h) 12 = [0, 0, 0, 0]"
  shows "\<exists>time h'. executeRun settling_kernel example_run 1 h =
           Some ([raw_record example_run 1 0 time], h')"
  using assms
  by (simp add: executeRun_def run_loop.simps loop_body_def executeRun_entry_def executeKernel_def
      readFromGlobalArg_def resetTempBuffers_def fillGlobalArg_def assertBuffersNotEqual_def
      should_terminate_iteration_def int_at_def le32_def compare_loop.simps
      example_run_def example_harness_def settling_kernel_def raw_record_def Let_def)

lemma alternating_step:
  assumes "alternating_inv n s"
  shows "\<exists>s'. loop_body alternating_kernel run t s = Some s' \<and> \<not> should_terminate s'
           \<and> alternating_inv (Suc n) s'"
proof -
  have st: "\<And>a b :: byte. should_terminate_iteration [a, 0, 0, 0] [b, 0, 0, 0] = Some (a = b)"
    using should_terminate_iteration_bytes[of "[a, 0, 0, 0]" "[b, 0, 0, 0]" for a b] by simp
  show ?thesis
    using assms
    by (cases "input_host_ptr s"; cases "output_host_ptr s")
       (auto simp: alternating_inv_def loop_body_def Let_def executeKernel_def
          alternating_kernel_def readFromGlobalArg_def assertBuffersNotEqual_def st
          split: prod.splits)
qed

lemma alternating_iterations:
  "\<exists>s. iterations alternating_kernel example_run 0 n (executeRun_entry example_harness) = Some s
       \<and> alternating_inv n s"
proof (induction n)
  case 0
  show ?case by (simp add: alternating_inv_def executeRun_entry_def example_harness_def)
next
  case (Suc n)
  then obtain s where i: "iterations alternating_kernel example_run 0 n (executeRun_entry example_harness) = Some s"
    and a: "alternating_inv n s" by blast
  from alternating_step[OF a, of example_run 0] i show ?case by auto
qed

lemma alternating_never_terminates:
  "\<forall>n s'. iterations alternating_kernel example_run 0 (Suc n) (executeRun_entry example_harness) = Some s'
      \<longrightarrow> \<not> should_terminate s'"
proof (intro allI impI)
  fix n s'
  assume i: "iterations alternating_kernel example_run 0 (Suc n) (executeRun_entry example_harness) = Some s'"
  from alternating_iterations[of n] obtain s where
    j: "iterations alternating_kernel example_run 0 n (executeRun_entry example_harness) = Some s"
    and a: "alternating_inv n s" by blast
  from alternating_step[OF a, of example_run 0] i j show "\<not> should_terminate s'" by auto
qed

section \<open>When the loop exits\<close>

text \<open>
  The flag after a pass is the value that \<^verbatim>\<open>should_terminate_iteration\<close> returned in it.
  The pass compares the input shadow with the output shadow and then swaps the two
  pointers, so in the state after the pass the compared pair is (output, input).
\<close>

lemma iterations_verdict:
  assumes "iterations K run t (Suc n) s = Some s'"
  shows "should_terminate_iteration (deref_host (output_host_ptr s') (this s'))
           (deref_host (input_host_ptr s') (this s')) = Some (should_terminate s')"
proof -
  from assms obtain s1 where b: "loop_body K run t s1 = Some s'" by (rule iterations_SucD)
  from loop_body_post(3,4,15)[OF b] show ?thesis by simp
qed

lemma exits_at_verdict:
  "exits_at K run t s n s' \<longleftrightarrow>
     iterations K run t (Suc n) s = Some s' \<and>
     should_terminate_iteration (deref_host (output_host_ptr s') (this s'))
        (deref_host (input_host_ptr s') (this s')) = Some True \<and>
     (\<forall>m<n. \<forall>s''. iterations K run t (Suc m) s = Some s'' \<longrightarrow>
        should_terminate_iteration (deref_host (output_host_ptr s'') (this s''))
          (deref_host (input_host_ptr s'') (this s'')) = Some False)"
proof -
  have a: "\<And>m s''. iterations K run t (Suc m) s = Some s'' \<Longrightarrow>
      (should_terminate_iteration (deref_host (output_host_ptr s'') (this s''))
          (deref_host (input_host_ptr s'') (this s'')) = Some True) = should_terminate s''"
    "\<And>m s''. iterations K run t (Suc m) s = Some s'' \<Longrightarrow>
      (should_terminate_iteration (deref_host (output_host_ptr s'') (this s''))
          (deref_host (input_host_ptr s'') (this s'')) = Some False) = (\<not> should_terminate s'')"
    using iterations_verdict[of K run t _ s] by auto
  show ?thesis
    unfolding exits_at_def
  proof (intro iffI conjI allI impI; (elim conjE)?)
    assume i: "iterations K run t (Suc n) s = Some s'" and st: "should_terminate s'"
      and no: "\<forall>m<n. \<forall>s''. iterations K run t (Suc m) s = Some s'' \<longrightarrow> \<not> should_terminate s''"
    show "iterations K run t (Suc n) s = Some s'" by (rule i)
    show "should_terminate_iteration (deref_host (output_host_ptr s') (this s'))
        (deref_host (input_host_ptr s') (this s')) = Some True"
      using a(1)[OF i] st by simp
    fix m s'' assume "m < n" and j: "iterations K run t (Suc m) s = Some s''"
    with no have "\<not> should_terminate s''" by blast
    then show "should_terminate_iteration (deref_host (output_host_ptr s'') (this s''))
          (deref_host (input_host_ptr s'') (this s'')) = Some False"
      using a(2)[OF j] by simp
  next
    assume i: "iterations K run t (Suc n) s = Some s'"
      and st: "should_terminate_iteration (deref_host (output_host_ptr s') (this s'))
        (deref_host (input_host_ptr s') (this s')) = Some True"
      and no: "\<forall>m<n. \<forall>s''. iterations K run t (Suc m) s = Some s'' \<longrightarrow>
        should_terminate_iteration (deref_host (output_host_ptr s'') (this s''))
          (deref_host (input_host_ptr s'') (this s'')) = Some False"
    show "iterations K run t (Suc n) s = Some s'" by (rule i)
    show "should_terminate s'" using a(1)[OF i] st by simp
    fix m s'' assume "m < n" and j: "iterations K run t (Suc m) s = Some s''"
    with no have "should_terminate_iteration (deref_host (output_host_ptr s'') (this s''))
          (deref_host (input_host_ptr s'') (this s'')) = Some False" by blast
    then show "\<not> should_terminate s''" using a(2)[OF j] by simp
  qed
qed

text \<open>
  Neither \<^verbatim>\<open>_timeout\<close> nor \<^verbatim>\<open>_trials\<close> is read by anything that \<^verbatim>\<open>executeRun\<close> calls:
  changing them changes nothing but themselves.
\<close>

lemma fillGlobalArg_config:
  "fillGlobalArg b a (h\<lparr>trials := n, timeout := x\<rparr>) = (fillGlobalArg b a h)\<lparr>trials := n, timeout := x\<rparr>"
  by (simp add: fillGlobalArg_def)

lemma resetTempBuffers_loop_config:
  "resetTempBuffers_loop l i (h\<lparr>trials := n, timeout := x\<rparr>) =
     (resetTempBuffers_loop l i h)\<lparr>trials := n, timeout := x\<rparr>"
proof (induction l arbitrary: i h)
  case Nil
  show ?case by simp
next
  case (Cons a l)
  show ?case
    by (cases "i < length (temp_globals (args h))") (simp_all add: fillGlobalArg_config Cons.IH)
qed

lemma resetTempBuffers_config:
  "resetTempBuffers (h\<lparr>trials := n, timeout := x\<rparr>) = (resetTempBuffers h)\<lparr>trials := n, timeout := x\<rparr>"
  by (simp add: resetTempBuffers_def resetTempBuffers_loop_config)

lemma executeKernel_config:
  "executeKernel K run (h\<lparr>trials := n, timeout := x\<rparr>) =
     (fst (executeKernel K run h), (snd (executeKernel K run h))\<lparr>trials := n, timeout := x\<rparr>)"
  by (simp add: executeKernel_def split: prod.splits)

lemma setGlobalArg_config:
  "setGlobalArg a m (h\<lparr>trials := n, timeout := x\<rparr>) = (setGlobalArg a m h)\<lparr>trials := n, timeout := x\<rparr>"
  by (simp add: setGlobalArg_def)

lemma host_config:
  "deref_host p (h\<lparr>trials := n, timeout := x\<rparr>) = deref_host p h"
  "deref_mem q (h\<lparr>trials := n, timeout := x\<rparr>) = deref_mem q h"
  "assign_host p v (h\<lparr>trials := n, timeout := x\<rparr>) = (assign_host p v h)\<lparr>trials := n, timeout := x\<rparr>"
  "readFromGlobalArg b m (h\<lparr>trials := n, timeout := x\<rparr>) = readFromGlobalArg b m h"
  by (cases p; cases q; simp add: readFromGlobalArg_def)+

lemma loop_body_config:
  "loop_body K run t (s\<lparr>this := (this s)\<lparr>trials := n, timeout := x\<rparr>\<rparr>) =
     map_option (\<lambda>s'. s'\<lparr>this := (this s')\<lparr>trials := n, timeout := x\<rparr>\<rparr>) (loop_body K run t s)"
proof -
  define h1 where "h1 = (this s)\<lparr>mem_manager := (mem_manager (this s))
      \<lparr>mm_temp_out_buffer := deref_host (output_host_ptr s) (this s) @
         drop (length (deref_host (output_host_ptr s) (this s)))
           (mm_temp_out_buffer (mem_manager (this s)))\<rparr>\<rparr>"
  have h1c: "(this s)\<lparr>trials := n, timeout := x, mem_manager := (mem_manager (this s))
      \<lparr>mm_temp_out_buffer := deref_host (output_host_ptr s) (this s) @
         drop (length (deref_host (output_host_ptr s) (this s)))
           (mm_temp_out_buffer (mem_manager (this s)))\<rparr>\<rparr> = h1\<lparr>trials := n, timeout := x\<rparr>"
    by (simp add: h1_def)
  obtain time h3 where ek: "executeKernel K run (resetTempBuffers h1) = (time, h3)"
    by (cases "executeKernel K run (resetTempBuffers h1)")
  have ekc: "executeKernel K run (resetTempBuffers (h1\<lparr>trials := n, timeout := x\<rparr>)) =
      (time, h3\<lparr>trials := n, timeout := x\<rparr>)"
    by (simp add: resetTempBuffers_config executeKernel_config ek)
  have mm: "\<And>h. mem_manager (h\<lparr>trials := n, timeout := x\<rparr>) = mem_manager h" by simp
  show ?thesis
    unfolding loop_body_def Let_def assertBuffersNotEqual_def
    by (auto simp: host_config h1c h1_def[symmetric] ek ekc setGlobalArg_config
          split: Option.bind_splits)
qed


lemma iterations_config:
  "iterations K run t k (s\<lparr>this := (this s)\<lparr>trials := n, timeout := x\<rparr>\<rparr>) =
     map_option (\<lambda>s'. s'\<lparr>this := (this s')\<lparr>trials := n, timeout := x\<rparr>\<rparr>) (iterations K run t k s)"
proof (induction k)
  case 0
  show ?case by simp
next
  case (Suc k)
  show ?case
    by (cases "iterations K run t k s") (simp_all add: Suc.IH loop_body_config)
qed

lemma exits_at_config:
  "exits_at K run t (s\<lparr>this := (this s)\<lparr>trials := n, timeout := x\<rparr>\<rparr>) k s2 \<longleftrightarrow>
     (\<exists>s'. exits_at K run t s k s' \<and> s2 = s'\<lparr>this := (this s')\<lparr>trials := n, timeout := x\<rparr>\<rparr>)"
proof
  assume a: "exits_at K run t (s\<lparr>this := (this s)\<lparr>trials := n, timeout := x\<rparr>\<rparr>) k s2"
  then have "map_option (\<lambda>s'. s'\<lparr>this := (this s')\<lparr>trials := n, timeout := x\<rparr>\<rparr>)
      (iterations K run t (Suc k) s) = Some s2"
    by (simp only: exits_at_def iterations_config)
  then obtain s' where i: "iterations K run t (Suc k) s = Some s'"
    and s2: "s2 = s'\<lparr>this := (this s')\<lparr>trials := n, timeout := x\<rparr>\<rparr>"
    by (cases "iterations K run t (Suc k) s") (auto simp del: iterations.simps)
  have "should_terminate s'" using a s2 by (simp add: exits_at_def del: iterations.simps)
  moreover have "\<forall>m<k. \<forall>s''. iterations K run t (Suc m) s = Some s'' \<longrightarrow> \<not> should_terminate s''"
  proof (intro allI impI)
    fix m s'' assume m: "m < k" and j: "iterations K run t (Suc m) s = Some s''"
    then have "iterations K run t (Suc m) (s\<lparr>this := (this s)\<lparr>trials := n, timeout := x\<rparr>\<rparr>) =
        Some (s''\<lparr>this := (this s'')\<lparr>trials := n, timeout := x\<rparr>\<rparr>)"
      by (simp only: iterations_config) simp
    with a m have "\<not> should_terminate (s''\<lparr>this := (this s'')\<lparr>trials := n, timeout := x\<rparr>\<rparr>)"
      unfolding exits_at_def by blast
    then show "\<not> should_terminate s''" by simp
  qed
  ultimately have "exits_at K run t s k s'" using i by (simp add: exits_at_def del: iterations.simps)
  with s2 show "\<exists>s'. exits_at K run t s k s' \<and> s2 = s'\<lparr>this := (this s')\<lparr>trials := n, timeout := x\<rparr>\<rparr>"
    by blast
next
  assume "\<exists>s'. exits_at K run t s k s' \<and> s2 = s'\<lparr>this := (this s')\<lparr>trials := n, timeout := x\<rparr>\<rparr>"
  then obtain s' where a: "exits_at K run t s k s'"
    and s2: "s2 = s'\<lparr>this := (this s')\<lparr>trials := n, timeout := x\<rparr>\<rparr>" by blast
  from a have i: "iterations K run t (Suc k) s = Some s'" and st: "should_terminate s'"
    by (simp_all add: exits_at_def del: iterations.simps)
  have "iterations K run t (Suc k) (s\<lparr>this := (this s)\<lparr>trials := n, timeout := x\<rparr>\<rparr>) = Some s2"
    using i s2 by (simp only: iterations_config) simp
  moreover have "should_terminate s2" using st s2 by simp
  moreover have "\<forall>m<k. \<forall>s''. iterations K run t (Suc m) (s\<lparr>this := (this s)\<lparr>trials := n, timeout := x\<rparr>\<rparr>) = Some s''
      \<longrightarrow> \<not> should_terminate s''"
  proof (intro allI impI)
    fix m s'' assume m: "m < k"
      and j: "iterations K run t (Suc m) (s\<lparr>this := (this s)\<lparr>trials := n, timeout := x\<rparr>\<rparr>) = Some s''"
    then have "map_option (\<lambda>s'. s'\<lparr>this := (this s')\<lparr>trials := n, timeout := x\<rparr>\<rparr>)
      (iterations K run t (Suc m) s) = Some s''"
      by (simp only: iterations_config)
    then obtain s1 where j1: "iterations K run t (Suc m) s = Some s1"
      and s'': "s'' = s1\<lparr>this := (this s1)\<lparr>trials := n, timeout := x\<rparr>\<rparr>"
      by (cases "iterations K run t (Suc m) s") (auto simp del: iterations.simps)
    from a m j1 have "\<not> should_terminate s1" unfolding exits_at_def by blast
    then show "\<not> should_terminate s''" using s'' by simp
  qed
  ultimately show "exits_at K run t (s\<lparr>this := (this s)\<lparr>trials := n, timeout := x\<rparr>\<rparr>) k s2"
    by (simp add: exits_at_def del: iterations.simps)
qed

lemma executeRun_config:
  "executeRun K run t (h\<lparr>trials := n, timeout := x\<rparr>) =
     map_option (\<lambda>(rs, h'). (rs, h'\<lparr>trials := n, timeout := x\<rparr>)) (executeRun K run t h)"
proof -
  have e: "executeRun_entry (h\<lparr>trials := n, timeout := x\<rparr>) =
      (executeRun_entry h)\<lparr>this := (this (executeRun_entry h))\<lparr>trials := n, timeout := x\<rparr>\<rparr>"
    by (simp add: executeRun_entry_def)
  show ?thesis
  proof (cases "executeRun K run t h")
    case None
    have "executeRun K run t (h\<lparr>trials := n, timeout := x\<rparr>) = None"
    proof (cases "executeRun K run t (h\<lparr>trials := n, timeout := x\<rparr>)")
      case (Some r)
      obtain rs h2 where "r = (rs, h2)" by (cases r)
      with Some obtain k s2 where "exits_at K run t (executeRun_entry (h\<lparr>trials := n, timeout := x\<rparr>)) k s2"
        by (auto simp: executeRun_Some_iff)
      then obtain s' where "exits_at K run t (executeRun_entry h) k s'"
        unfolding e exits_at_config by blast
      then have "executeRun K run t h = Some (runtimes s', this s')"
        unfolding executeRun_Some_iff by blast
      with None show ?thesis by simp
    qed simp
    with None show ?thesis by simp
  next
    case (Some r)
    obtain rs h' where r: "r = (rs, h')" by (cases r)
    with Some obtain k s' where x: "exits_at K run t (executeRun_entry h) k s'"
      and rs: "rs = runtimes s'" and h': "h' = this s'"
      by (auto simp: executeRun_Some_iff)
    from x have "exits_at K run t (executeRun_entry (h\<lparr>trials := n, timeout := x\<rparr>)) k
        (s'\<lparr>this := (this s')\<lparr>trials := n, timeout := x\<rparr>\<rparr>)"
      unfolding e exits_at_config by blast
    then have "executeRun K run t (h\<lparr>trials := n, timeout := x\<rparr>) =
        Some (runtimes (s'\<lparr>this := (this s')\<lparr>trials := n, timeout := x\<rparr>\<rparr>),
              this (s'\<lparr>this := (this s')\<lparr>trials := n, timeout := x\<rparr>\<rparr>))"
      unfolding executeRun_Some_iff by blast
    then show ?thesis using Some r rs h' by simp
  qed
qed

text \<open>
  Claim C9. \<^verbatim>\<open>executeRun\<close> returns exactly when in some pass of the loop the call
  \<^verbatim>\<open>should_terminate_iteration(*input_host_ptr, *output_host_ptr)\<close> returns true, and it
  returns the state of the first such pass: in every earlier pass the call has returned
  false. (The pointers are swapped after the call, so in the state \<open>s'\<close> after a pass the
  pair that was compared is the output shadow and the input shadow of \<open>s'\<close>.) When in no
  pass the call returns true, \<^verbatim>\<open>executeRun\<close> does not return. Nothing else decides the
  exit: the run with any other timeout and any other number of trials makes the same
  passes and returns the same records.
\<close>

theorem executeRun_exits_only_on_true_check:
  "(executeRun K run t h = Some (rs, h') \<longleftrightarrow>
      (\<exists>n s'. iterations K run t (Suc n) (executeRun_entry h) = Some s' \<and>
          should_terminate_iteration (deref_host (output_host_ptr s') (this s'))
            (deref_host (input_host_ptr s') (this s')) = Some True \<and>
          (\<forall>m<n. \<forall>s''. iterations K run t (Suc m) (executeRun_entry h) = Some s'' \<longrightarrow>
             should_terminate_iteration (deref_host (output_host_ptr s'') (this s''))
               (deref_host (input_host_ptr s'') (this s'')) = Some False) \<and>
          rs = runtimes s' \<and> h' = this s'))
   \<and> ((\<forall>n s'. iterations K run t (Suc n) (executeRun_entry h) = Some s' \<longrightarrow>
          should_terminate_iteration (deref_host (output_host_ptr s') (this s'))
            (deref_host (input_host_ptr s') (this s')) \<noteq> Some True)
        \<longrightarrow> executeRun K run t h = None)
   \<and> executeRun K run t (h\<lparr>trials := c, timeout := x\<rparr>) =
        map_option (\<lambda>(rs, h'). (rs, h'\<lparr>trials := c, timeout := x\<rparr>)) (executeRun K run t h)"
proof (intro conjI)
  show "executeRun K run t h = Some (rs, h') \<longleftrightarrow>
      (\<exists>n s'. iterations K run t (Suc n) (executeRun_entry h) = Some s' \<and>
          should_terminate_iteration (deref_host (output_host_ptr s') (this s'))
            (deref_host (input_host_ptr s') (this s')) = Some True \<and>
          (\<forall>m<n. \<forall>s''. iterations K run t (Suc m) (executeRun_entry h) = Some s'' \<longrightarrow>
             should_terminate_iteration (deref_host (output_host_ptr s'') (this s''))
               (deref_host (input_host_ptr s'') (this s'')) = Some False) \<and>
          rs = runtimes s' \<and> h' = this s')"
    by (simp only: executeRun_Some_iff exits_at_verdict conj_assoc)
  show "(\<forall>n s'. iterations K run t (Suc n) (executeRun_entry h) = Some s' \<longrightarrow>
          should_terminate_iteration (deref_host (output_host_ptr s') (this s'))
            (deref_host (input_host_ptr s') (this s')) \<noteq> Some True)
        \<longrightarrow> executeRun K run t h = None"
  proof
    assume never: "\<forall>n s'. iterations K run t (Suc n) (executeRun_entry h) = Some s' \<longrightarrow>
          should_terminate_iteration (deref_host (output_host_ptr s') (this s'))
            (deref_host (input_host_ptr s') (this s')) \<noteq> Some True"
    show "executeRun K run t h = None"
    proof (cases "executeRun K run t h")
      case None
      then show ?thesis .
    next
      case (Some r)
      obtain rs h' where "r = (rs, h')" by (cases r)
      with Some obtain n s' where e: "exits_at K run t (executeRun_entry h) n s'"
        by (auto simp: executeRun_Some_iff)
      then have "iterations K run t (Suc n) (executeRun_entry h) = Some s'"
        and "should_terminate_iteration (deref_host (output_host_ptr s') (this s'))
            (deref_host (input_host_ptr s') (this s')) = Some True"
        by (simp_all only: exits_at_verdict)
      with never show ?thesis by blast
    qed
  qed
  show "executeRun K run t (h\<lparr>trials := c, timeout := x\<rparr>) =
        map_option (\<lambda>(rs, h'). (rs, h'\<lparr>trials := c, timeout := x\<rparr>)) (executeRun K run t h)"
    by (rule executeRun_config)
qed

text \<open>
  The alternating kernel never produces equal shadows and the run never returns; the
  saturating kernel produces them at the third pass, and with a timeout of 0 the run
  still makes its three passes.
\<close>

theorem executeRun_exits_only_on_true_check_witness:
  "executeRun alternating_kernel example_run 0 example_harness = None
   \<and> (\<exists>n s'. iterations saturating_kernel example_run 0 (Suc n) (executeRun_entry example_harness) = Some s'
         \<and> should_terminate_iteration (deref_host (output_host_ptr s') (this s'))
              (deref_host (input_host_ptr s') (this s')) = Some True
         \<and> length (runtimes s') = 3)
   \<and> map_option (length \<circ> fst)
        (executeRun saturating_kernel example_run 0 (example_harness\<lparr>trials := 5, timeout := 0\<rparr>)) = Some 3"
proof (intro conjI)
  have never: "\<forall>n s'. iterations alternating_kernel example_run 0 (Suc n) (executeRun_entry example_harness) = Some s' \<longrightarrow>
          should_terminate_iteration (deref_host (output_host_ptr s') (this s'))
            (deref_host (input_host_ptr s') (this s')) \<noteq> Some True"
  proof (intro allI impI)
    fix n s'
    assume i: "iterations alternating_kernel example_run 0 (Suc n) (executeRun_entry example_harness) = Some s'"
    with alternating_never_terminates have "\<not> should_terminate s'" by blast
    with iterations_verdict[OF i] show "should_terminate_iteration (deref_host (output_host_ptr s') (this s'))
            (deref_host (input_host_ptr s') (this s')) \<noteq> Some True" by simp
  qed
  note t1 = executeRun_exits_only_on_true_check[where K = alternating_kernel and run = example_run and t = 0
      and h = example_harness]
  from t1 never show "executeRun alternating_kernel example_run 0 example_harness = None" by blast
  have "\<exists>rs h'. executeRun saturating_kernel example_run 0 example_harness = Some (rs, h') \<and> length rs = 3"
    by (simp add: executeRun_def run_loop.simps step_defs)
  then obtain rs h' where e: "executeRun saturating_kernel example_run 0 example_harness = Some (rs, h')"
    and l: "length rs = 3" by blast
  note t2 = executeRun_exits_only_on_true_check[where K = saturating_kernel and run = example_run and t = 0
      and h = example_harness and rs = rs and h' = h' and c = 5 and x = 0]
  from t2[THEN conjunct1] e l
  show "\<exists>n s'. iterations saturating_kernel example_run 0 (Suc n) (executeRun_entry example_harness) = Some s'
         \<and> should_terminate_iteration (deref_host (output_host_ptr s') (this s'))
              (deref_host (input_host_ptr s') (this s')) = Some True
         \<and> length (runtimes s') = 3"
    by blast
  from t2[THEN conjunct2, THEN conjunct2] e l
  show "map_option (length \<circ> fst)
        (executeRun saturating_kernel example_run 0 (example_harness\<lparr>trials := 5, timeout := 0\<rparr>)) = Some 3"
    by simp
qed

text \<open>
  In terms of what the loop compares: let the buffers be within the range of the
  comparison counter and let the \<open>k\<close>-th pass, \<open>k \<ge> 1\<close>, be the first after which the two
  host shadows agree (the output shadow just read back equals the input shadow). Then
  \<^verbatim>\<open>executeRun\<close> returns, and it returns exactly \<open>k\<close> raw timing records, those of
  iterations \<open>0, ..., k - 1\<close>.
\<close>

lemma executeRun_k_records_at_fixed_point:
  assumes "min (length (mm_input_host_buffer (mem_manager h)) div 4)
               (length (mm_output_host_buffer (mem_manager h)) div 4) < 2 ^ 32"
    and "1 \<le> k"
    and "\<forall>j s. 1 \<le> j \<and> j \<le> k \<and> iterations K run t j (executeRun_entry h) = Some s
           \<longrightarrow> (shadows_agree s \<longleftrightarrow> j = k)"
  shows "\<exists>times h'. executeRun K run t h = Some (map (\<lambda>(j, time). raw_record run t (int j) time) (zip [0..<k] times), h')
           \<and> length times = k"
proof -
  let ?e = "executeRun_entry h"
  have r: "counter_in_range ?e" by (rule entry_in_range[OF assms(1)])
  obtain n where k: "k = Suc n" using assms(2) by (cases k) auto
  from iterations_in_range[OF r, of K run t k] obtain s' where
    i: "iterations K run t k ?e = Some s'" by blast
  have "1 \<le> k \<and> k \<le> k \<and> iterations K run t k ?e = Some s'" using assms(2) i by simp
  with assms(3)[THEN spec, THEN spec, of k s'] have "shadows_agree s'" by simp
  moreover have "should_terminate s' = shadows_agree s'"
    using iterations_flag[OF r, of K run t n s'] i k by (simp del: iterations.simps)
  ultimately have "should_terminate s'" by simp
  moreover have "\<forall>m<n. \<forall>s''. iterations K run t (Suc m) ?e = Some s'' \<longrightarrow> \<not> should_terminate s''"
  proof (intro allI impI)
    fix m s'' assume m: "m < n" and i': "iterations K run t (Suc m) ?e = Some s''"
    have "1 \<le> Suc m \<and> Suc m \<le> k \<and> iterations K run t (Suc m) ?e = Some s''"
      using i' m k by (simp del: iterations.simps)
    with assms(3)[THEN spec, THEN spec, of "Suc m" s''] have "shadows_agree s'' \<longleftrightarrow> Suc m = k"
      by (simp del: iterations.simps)
    then show "\<not> should_terminate s''" using iterations_flag[OF r i'] m k by simp
  qed
  ultimately have "exits_at K run t ?e n s'" using i k by (simp add: exits_at_def del: iterations.simps)
  then have e: "executeRun K run t h = Some (runtimes s', this s')"
    by (auto simp: executeRun_Some_iff)
  from iterations_runtimes[OF i] obtain times where "length times = k"
    "runtimes s' = map (\<lambda>(j, time). raw_record run t (int j) time) (zip [0..<k] times)"
    by (auto simp: executeRun_entry_def)
  with e show ?thesis by auto
qed

text \<open>The saturating kernel from 0: the third launch changes nothing, three records.\<close>

lemma executeRun_k_records_at_fixed_point_example:
  "\<exists>times h'. executeRun saturating_kernel example_run 0 example_harness =
       Some (map (\<lambda>(j, time). raw_record example_run 0 (int j) time) (zip [0..<3] times), h')
     \<and> length times = 3"
proof -
  have b: "min (length (mm_input_host_buffer (mem_manager example_harness)) div 4)
               (length (mm_output_host_buffer (mem_manager example_harness)) div 4) < 2 ^ 32"
    by (simp add: example_harness_def)
  have k: "(1::nat) \<le> 3" by simp
  have f: "\<forall>j s. 1 \<le> j \<and> j \<le> 3 \<and>
      iterations saturating_kernel example_run 0 j (executeRun_entry example_harness) = Some s
           \<longrightarrow> (shadows_agree s \<longleftrightarrow> j = 3)"
  proof (intro allI impI, elim conjE)
    fix j :: nat and s
    assume "1 \<le> j" "j \<le> 3"
      and i: "iterations saturating_kernel example_run 0 j (executeRun_entry example_harness) = Some s"
    then consider "j = Suc 0" | "j = Suc (Suc 0)" | "j = Suc (Suc (Suc 0))" by arith
    then show "shadows_agree s \<longleftrightarrow> j = 3"
    proof cases
      case 1
      with i saturating_iterations(1) show ?thesis by (auto simp del: iterations.simps)
    next
      case 2
      with i saturating_iterations(2) show ?thesis by (auto simp del: iterations.simps)
    next
      case 3
      with i saturating_iterations(3) show ?thesis by (auto simp del: iterations.simps)
    qed
  qed
  from executeRun_k_records_at_fixed_point[OF b k f] show ?thesis .
qed

text \<open>
  Claim C7, on the code. The input shadow is the input of the kernel only as long as it
  holds what the input buffer holds. \<^verbatim>\<open>resetInputs\<close> uploads the vectors to the device
  again and leaves the two host shadows as the last trial left them. With the settling
  kernel (from 0 the output equals the input at iteration \<open>k = 2\<close>) and two trials, the
  first trial returns two raw records; in the second trial the first launch turns 0 into
  1, the comparison is made against the shadow of the first trial, which holds 1, and
  the trial returns one raw record, not two.
\<close>

theorem later_trial_stops_on_stale_shadow:
  "map_option (map_sum id (\<lambda>(all_runtimes, h'). map (map (\<lambda>r. (kind r, SqlStat.iteration r))) all_runtimes))
     (benchmark settling_kernel example_run (example_harness\<lparr>trials := 2\<rparr>))
   = Some (Inr [[(RAW_RESULT, Some 0), (RAW_RESULT, Some 1), (MEDIAN_RESULT, None),
                 (MULTI_ITERATION_SUM, None)],
                [(RAW_RESULT, Some 0), (MEDIAN_RESULT, None), (MULTI_ITERATION_SUM, None)]])"
proof -
  from settling_first_trial obtain h1 where
    e1: "executeRun settling_kernel example_run 0 (example_harness\<lparr>trials := 2\<rparr>) =
      Some ([raw_record example_run 0 0 4, raw_record example_run 0 1 5], h1)"
    and m1: "mem_manager h1 = (mem_manager example_harness)
         \<lparr>mm_input_host_buffer := [1, 0, 0, 0], mm_output_host_buffer := [1, 0, 0, 0]\<rparr>"
    and a1: "args h1 = args example_harness" and d1: "mem (dev h1) 12 = [1, 0, 0, 0]"
    by blast
  have m2: "mem_manager (resetInputs h1) = (mem_manager example_harness)
         \<lparr>mm_input_host_buffer := [1, 0, 0, 0], mm_output_host_buffer := [1, 0, 0, 0]\<rparr>"
    using m1 by simp
  have a2: "args (resetInputs h1) = args example_harness" using a1 by simp
  have k2: "kernel_args (dev (resetInputs h1)) 2 = Some (GlobalArg 12)"
    "kernel_args (dev (resetInputs h1)) 6 = Some (GlobalArg 14)"
    by (simp_all add: resetInputs_kernel_args m1 example_harness_def)
  have d2: "mem (dev (resetInputs h1)) 12 = [0, 0, 0, 0]"
    using m1 a1 d1
    by (simp add: resetInputs_def Let_def fillGlobalArg_def resetTempBuffers_def example_harness_def)
  from settling_later_trial[OF m2 a2 k2 d2] obtain time h3 where
    e2: "executeRun settling_kernel example_run 1 (resetInputs h1) =
      Some ([raw_record example_run 1 0 time], h3)" by blast
  from e2 have e2': "executeRun settling_kernel example_run (Suc 0) (resetInputs h1) =
      Some ([raw_record example_run (Suc 0) 0 time], h3)" by simp
  have t: "[0..<trials (example_harness\<lparr>trials := 2\<rparr>)] = [0, 1]" by (simp add: upt_rec)
  show ?thesis
    unfolding benchmark_def t
    by (simp add: e1 e2' trial_records_def trial_records_after_sort_def Let_def raw_record_def)
qed

text \<open>
  Claim C8. After \<open>N\<close> passes of the loop, the pointer that holds the output role points
  at the buffer handle that started as the input (\<^verbatim>\<open>_x_vect\<close>) exactly when \<open>N\<close> is odd,
  and the input pointer points at it exactly when \<open>N\<close> is even; the same holds for the
  host shadows. The handles stored in the two fields are never changed: the swap
  exchanges the pointers, not the buffers.
\<close>

theorem role_swap_parity:
  assumes "iterations K run t N (executeRun_entry h) = Some s"
  shows "(output_mem_ptr s = Addr_x_vect \<longleftrightarrow> odd N) \<and> (input_mem_ptr s = Addr_x_vect \<longleftrightarrow> even N)
       \<and> (input_mem_ptr s = Addr_output \<longleftrightarrow> odd N) \<and> (output_mem_ptr s = Addr_output \<longleftrightarrow> even N)
       \<and> (output_host_ptr s = Addr_input_host_buffer \<longleftrightarrow> odd N)
       \<and> (input_host_ptr s = Addr_input_host_buffer \<longleftrightarrow> even N)
       \<and> (input_host_ptr s = Addr_output_host_buffer \<longleftrightarrow> odd N)
       \<and> (output_host_ptr s = Addr_output_host_buffer \<longleftrightarrow> even N)
       \<and> mm_x_vect (mem_manager (this s)) = mm_x_vect (mem_manager h)
       \<and> mm_output (mem_manager (this s)) = mm_output (mem_manager h)"
  using iterations_pointers[OF assms] by (simp add: executeRun_entry_def)

text \<open>After three passes the roles are exchanged.\<close>

theorem role_swap_parity_witness:
  "\<exists>s. iterations saturating_kernel example_run 0 3 (executeRun_entry example_harness) = Some s
      \<and> output_mem_ptr s = Addr_x_vect \<and> input_mem_ptr s = Addr_output
      \<and> output_host_ptr s = Addr_input_host_buffer \<and> input_host_ptr s = Addr_output_host_buffer"
proof -
  have "\<exists>s. iterations saturating_kernel example_run 0 3 (executeRun_entry example_harness) = Some s"
    using saturating_iterations(3) by (auto simp: numeral_3_eq_3 simp del: iterations.simps)
  then obtain s where i: "iterations saturating_kernel example_run 0 3 (executeRun_entry example_harness) = Some s"
    by blast
  from role_swap_parity[OF i] i show ?thesis by auto
qed

text \<open>
  Claim C3, as the code has it. Every pass of the loop makes three \<^verbatim>\<open>setGlobalArg\<close>
  calls: slot \<^verbatim>\<open>_input_idx\<close> and slot 3 (the y vector) are bound to the new input buffer,
  slot \<^verbatim>\<open>_output_idx\<close> to the new output buffer. Over a whole run that is three calls per
  raw timing record, and every other slot keeps its binding.
\<close>

theorem loop_rebinds_three_slots:
  "(\<forall>s'. loop_body K run t s = Some s' \<longrightarrow>
      set_arg_calls (dev (this s')) = set_arg_calls (dev (this s)) @
        [(mm_input_idx (mem_manager (this s)), GlobalArg (deref_mem (input_mem_ptr s') (this s'))),
         (mm_output_idx (mem_manager (this s)), GlobalArg (deref_mem (output_mem_ptr s') (this s'))),
         (3, GlobalArg (deref_mem (input_mem_ptr s') (this s')))])
   \<and> (\<forall>rs h'. executeRun K run t h = Some (rs, h') \<longrightarrow>
        length (set_arg_calls (dev h')) = length (set_arg_calls (dev h)) + 3 * length rs \<and>
        (\<forall>slot. slot \<notin> {mm_input_idx (mem_manager h), mm_output_idx (mem_manager h), 3}
             \<longrightarrow> kernel_args (dev h') slot = kernel_args (dev h) slot))"
proof (intro conjI allI impI)
  fix s' assume b: "loop_body K run t s = Some s'"
  note p = loop_body_post[OF b]
  have d: "\<And>q. deref_mem q (this s') = deref_mem q (this s)"
    using p(8) p(9) by (case_tac q) simp_all
  show "set_arg_calls (dev (this s')) = set_arg_calls (dev (this s)) @
        [(mm_input_idx (mem_manager (this s)), GlobalArg (deref_mem (input_mem_ptr s') (this s'))),
         (mm_output_idx (mem_manager (this s)), GlobalArg (deref_mem (output_mem_ptr s') (this s'))),
         (3, GlobalArg (deref_mem (input_mem_ptr s') (this s')))]"
    using p(16) p(1) p(2) d by simp
next
  fix rs h' assume e: "executeRun K run t h = Some (rs, h')"
  then obtain n s' where "exits_at K run t (executeRun_entry h) n s'"
    and rs: "rs = runtimes s'" and h': "h' = this s'"
    by (auto simp: executeRun_Some_iff)
  then have i: "iterations K run t (Suc n) (executeRun_entry h) = Some s'" by (simp add: exits_at_def)
  note k = iterations_kernel_args[OF i]
  from k rs h' show "length (set_arg_calls (dev h')) = length (set_arg_calls (dev h)) + 3 * length rs"
    by (simp add: executeRun_entry_def)
  fix slot assume "slot \<notin> {mm_input_idx (mem_manager h), mm_output_idx (mem_manager h), 3}"
  with k h' show "kernel_args (dev h') slot = kernel_args (dev h) slot"
    by (simp add: executeRun_entry_def)
qed

text \<open>
  The claim as stated (exactly two slots are rebound) fails on the example harness:
  one pass rebinds slots 2, 6 and 3.
\<close>

theorem loop_rebinds_three_slots_counterexample:
  "map_option (\<lambda>s. map fst (set_arg_calls (dev (this s))))
     (loop_body saturating_kernel example_run 0 (executeRun_entry example_harness))
   = Some [2, 6, 3]"
  by (simp add: model_defs compare_loop.simps)

text \<open>One pass and one whole run of the saturating kernel.\<close>

theorem loop_rebinds_three_slots_witness:
  "(\<exists>s'. loop_body saturating_kernel example_run 0 (executeRun_entry example_harness) = Some s'
      \<and> set_arg_calls (dev (this s')) = [(2, GlobalArg 14), (6, GlobalArg 12), (3, GlobalArg 14)])
   \<and> (\<exists>rs h'. executeRun saturating_kernel example_run 0 example_harness = Some (rs, h')
      \<and> length (set_arg_calls (dev h')) = 9
      \<and> kernel_args (dev h') 0 = Some (GlobalArg 10)
      \<and> kernel_args (dev h') 7 = Some (GlobalArg 15))"
proof
  note t = loop_rebinds_three_slots[of saturating_kernel example_run 0 "executeRun_entry example_harness"
      example_harness]
  have "\<exists>s'. loop_body saturating_kernel example_run 0 (executeRun_entry example_harness) = Some s'"
    using saturating_iterations(1) by auto
  then obtain s' where b: "loop_body saturating_kernel example_run 0 (executeRun_entry example_harness) = Some s'"
    by blast
  note p = loop_body_post[OF b]
  have d: "\<And>q. deref_mem q (this s') = deref_mem q example_harness"
    using p(8) p(9) by (case_tac q) (simp_all add: executeRun_entry_def)
  from t b have "set_arg_calls (dev (this s')) = set_arg_calls (dev (this (executeRun_entry example_harness))) @
        [(mm_input_idx (mem_manager (this (executeRun_entry example_harness))), GlobalArg (deref_mem (input_mem_ptr s') (this s'))),
         (mm_output_idx (mem_manager (this (executeRun_entry example_harness))), GlobalArg (deref_mem (output_mem_ptr s') (this s'))),
         (3, GlobalArg (deref_mem (input_mem_ptr s') (this s')))]" by blast
  then have "set_arg_calls (dev (this s')) = [(2, GlobalArg 14), (6, GlobalArg 12), (3, GlobalArg 14)]"
    using p(1) p(2) by (simp add: d) (simp add: executeRun_entry_def example_harness_def)
  with b show "\<exists>s'. loop_body saturating_kernel example_run 0 (executeRun_entry example_harness) = Some s'
      \<and> set_arg_calls (dev (this s')) = [(2, GlobalArg 14), (6, GlobalArg 12), (3, GlobalArg 14)]"
    by blast
  have "\<exists>rs h'. executeRun saturating_kernel example_run 0 example_harness = Some (rs, h') \<and> length rs = 3"
    by (simp add: executeRun_def run_loop.simps step_defs)
  then obtain rs h' where e: "executeRun saturating_kernel example_run 0 example_harness = Some (rs, h')"
    and l: "length rs = 3" by blast
  from t e have 1: "length (set_arg_calls (dev h')) = length (set_arg_calls (dev example_harness)) + 3 * length rs"
    and 2: "\<forall>slot. slot \<notin> {mm_input_idx (mem_manager example_harness), mm_output_idx (mem_manager example_harness), 3}
             \<longrightarrow> kernel_args (dev h') slot = kernel_args (dev example_harness) slot"
    by blast+
  from 1 l have "length (set_arg_calls (dev h')) = 9" by (simp add: example_harness_def)
  moreover from 2 have "kernel_args (dev h') 0 = Some (GlobalArg 10)" "kernel_args (dev h') 7 = Some (GlobalArg 15)"
    by (simp_all add: example_harness_def)
  ultimately show "\<exists>rs h'. executeRun saturating_kernel example_run 0 example_harness = Some (rs, h')
      \<and> length (set_arg_calls (dev h')) = 9
      \<and> kernel_args (dev h') 0 = Some (GlobalArg 10)
      \<and> kernel_args (dev h') 7 = Some (GlobalArg 15)"
    using e by blast
qed

section \<open>The trial always has a record\<close>

lemma trial_records_nonempty:
  "rs \<noteq> [] \<Longrightarrow> \<exists>recs. trial_records run t rs = Inr recs"
  by (simp add: trial_records_def trial_records_after_sort_def Let_def)

lemma benchmark_trials_in_bounds:
  "benchmark_trials K run ts acc h \<noteq> Some (Inl e)"
proof (induction ts arbitrary: acc h)
  case Nil
  show ?case by simp
next
  case (Cons t ts)
  show ?case
  proof (cases "executeRun K run t h")
    case None
    then show ?thesis by simp
  next
    case (Some r)
    obtain rs h1 where r: "r = (rs, h1)" by (cases r)
    from executeRun_nonempty(1)[OF Some[unfolded r]] trial_records_nonempty[of rs run t]
    obtain recs where "trial_records run t rs = Inr recs" by blast
    then show ?thesis using Some r Cons.IH by simp
  qed
qed

text \<open>
  Claim C10. Whatever \<^verbatim>\<open>executeRun\<close> returns holds at least one raw timing record, the
  kernel has been launched at least once more than before, and the index
  \<open>size / 2\<close> of the median selection lies within the sorted sequence; whenever some
  pass sets the flag, \<^verbatim>\<open>executeRun\<close> does return; and \<^verbatim>\<open>benchmark\<close> never indexes out of
  range. Nothing is assumed of the two shadows on entry.
\<close>

theorem executeRun_at_least_one_record:
  "(\<forall>rs h'. executeRun K run t h = Some (rs, h') \<longrightarrow>
       rs \<noteq> [] \<and> length (std_sort SqlStat_compare rs) div 2 < length (std_sort SqlStat_compare rs)
       \<and> launches (dev h) < launches (dev h') \<and> (\<exists>recs. trial_records run t rs = Inr recs))
   \<and> ((\<exists>n s'. iterations K run t (Suc n) (executeRun_entry h) = Some s' \<and> should_terminate s')
        \<longrightarrow> (\<exists>rs h'. executeRun K run t h = Some (rs, h')))
   \<and> benchmark K run h \<noteq> Some (Inl IndexOutOfRange)"
proof (intro conjI allI impI)
  fix rs h' assume e: "executeRun K run t h = Some (rs, h')"
  from executeRun_nonempty[OF e] show ne: "rs \<noteq> []" and "launches (dev h) < launches (dev h')" .
  from ne have "0 < length rs" by simp
  then show "length (std_sort SqlStat_compare rs) div 2 < length (std_sort SqlStat_compare rs)" by simp
  show "\<exists>recs. trial_records run t rs = Inr recs"
    using ne by (rule trial_records_nonempty)
next
  assume "\<exists>n s'. iterations K run t (Suc n) (executeRun_entry h) = Some s' \<and> should_terminate s'"
  then obtain n s' where i: "iterations K run t (Suc n) (executeRun_entry h) = Some s'"
    and st: "should_terminate s'" by blast
  from exits_at_exists[OF i st] obtain m s'' where "exits_at K run t (executeRun_entry h) m s''"
    by blast
  then have "executeRun K run t h = Some (runtimes s'', this s'')"
    unfolding executeRun_Some_iff by blast
  then show "\<exists>rs h'. executeRun K run t h = Some (rs, h')" by blast
next
  show "benchmark K run h \<noteq> Some (Inl IndexOutOfRange)"
    unfolding benchmark_def by (rule benchmark_trials_in_bounds)
qed

text \<open>
  The two shadows are equal on entry and the kernel changes nothing: one launch, one
  record.
\<close>

theorem executeRun_at_least_one_record_witness:
  "mm_input_host_buffer (mem_manager example_harness) = mm_output_host_buffer (mem_manager example_harness)
   \<and> (\<exists>rs h'. executeRun idle_kernel example_run 0 example_harness = Some (rs, h')
         \<and> length rs = 1 \<and> launches (dev example_harness) < launches (dev h')
         \<and> (\<exists>recs. trial_records example_run 0 rs = Inr recs))"
proof
  show "mm_input_host_buffer (mem_manager example_harness) = mm_output_host_buffer (mem_manager example_harness)"
    by (simp add: example_harness_def)
  note t = executeRun_at_least_one_record[of idle_kernel example_run 0 example_harness]
  have "\<exists>s'. iterations idle_kernel example_run 0 (Suc 0) (executeRun_entry example_harness) = Some s'
      \<and> should_terminate s' \<and> length (runtimes s') = 1"
    by (simp add: idle_kernel_def step_defs)
  then obtain s' where i: "iterations idle_kernel example_run 0 (Suc 0) (executeRun_entry example_harness) = Some s'"
    and s: "should_terminate s'" and l: "length (runtimes s') = 1" by blast
  then have "\<exists>n s'. iterations idle_kernel example_run 0 (Suc n) (executeRun_entry example_harness) = Some s'
      \<and> should_terminate s'" by blast
  with t obtain rs h' where e: "executeRun idle_kernel example_run 0 example_harness = Some (rs, h')"
    by blast
  have "exits_at idle_kernel example_run 0 (executeRun_entry example_harness) 0 s'"
    using i s by (simp add: exits_at_def)
  then have "executeRun idle_kernel example_run 0 example_harness = Some (runtimes s', this s')"
    unfolding executeRun_Some_iff by blast
  with e l have "length rs = 1" by simp
  with t e show "\<exists>rs h'. executeRun idle_kernel example_run 0 example_harness = Some (rs, h')
         \<and> length rs = 1 \<and> launches (dev example_harness) < launches (dev h')
         \<and> (\<exists>recs. trial_records example_run 0 rs = Inr recs)"
    by blast
qed

section \<open>Median and sum of a trial\<close>

lemma foldl_getTime: "foldl (\<lambda>time stat. time + getTime stat) a xs = a + sum_list (map getTime xs)"
  by (induction xs arbitrary: a) simp_all

lemma std_sort_result_durations:
  assumes "std_sort_result SqlStat_compare xs ys"
  shows "map getTime ys = sort (map getTime xs)"
proof -
  from assms have m: "mset ys = mset xs"
    and s: "sorted_wrt (\<lambda>a b. \<not> SqlStat_compare b a) ys"
    by (simp_all add: std_sort_result_def)
  from m have mm: "mset (map getTime ys) = mset (map getTime xs)" by simp
  from s have srt: "sorted (map getTime ys)"
    by (simp add: sorted_wrt_map SqlStat_compare_def not_less)
  from properties_for_sort[OF mm srt] show ?thesis by (rule sym)
qed

lemma std_sort_result_length:
  "std_sort_result lt xs ys \<Longrightarrow> length ys = length xs"
  unfolding std_sort_result_def by (metis size_mset)

lemma std_sort_result_sum:
  assumes "std_sort_result lt xs ys"
  shows "sum_list (map getTime ys) = sum_list (map getTime xs)"
proof -
  from assms have m: "mset ys = mset xs" by (simp add: std_sort_result_def)
  have "sum_list (map getTime ys) = sum_mset (mset (map getTime ys))"
    by (simp only: sum_mset_sum_list)
  also have "\<dots> = sum_mset (mset (map getTime xs))" using m by simp
  also have "\<dots> = sum_list (map getTime xs)" by (simp only: sum_mset_sum_list)
  finally show ?thesis .
qed

lemma std_sort_admissible:
  "std_sort_result SqlStat_compare xs (std_sort SqlStat_compare xs)"
proof -
  have "sorted (map getTime (sort_key getTime xs))" by (rule sorted_sort_key)
  then have "sorted_wrt (\<lambda>a b. \<not> SqlStat_compare b a) (sort_key getTime xs)"
    by (simp add: sorted_wrt_map SqlStat_compare_def not_less)
  then show ?thesis by (simp add: std_sort_result_def)
qed

lemma trial_records_after_sort_eq:
  assumes "rs \<noteq> []" and "std_sort_result SqlStat_compare rs ys"
  shows "trial_records_after_sort run t ys = Inr (ys @
     [\<lparr>getTime = median_duration rs, correctness = NOT_CHECKED, stat_global = global1 run,
       stat_local = local1 run, kind = MEDIAN_RESULT, trial = Some t, iteration = None\<rparr>,
      \<lparr>getTime = sum_list (map getTime rs) + median_duration rs, correctness = NOT_CHECKED,
       stat_global = global1 run, stat_local = local1 run, kind = MULTI_ITERATION_SUM,
       trial = None, iteration = None\<rparr>])"
proof -
  have n: "length ys = length rs" using assms(2) by (rule std_sort_result_length)
  have l: "length ys div 2 < length ys" using assms(1) n by simp
  have "getTime (ys ! (length ys div 2)) = map getTime ys ! (length ys div 2)"
    using l by simp
  then have m: "getTime (ys ! (length ys div 2)) = median_duration rs"
    by (simp only: std_sort_result_durations[OF assms(2)] median_duration_def n)
  show ?thesis
    using l m by (simp add: trial_records_after_sort_def Let_def foldl_getTime
        std_sort_result_sum[OF assms(2)])
qed

lemma trial_records_eq:
  assumes "rs \<noteq> []"
  shows "trial_records run t rs = Inr (sort_key getTime rs @
     [\<lparr>getTime = median_duration rs, correctness = NOT_CHECKED, stat_global = global1 run,
       stat_local = local1 run, kind = MEDIAN_RESULT, trial = Some t, iteration = None\<rparr>,
      \<lparr>getTime = sum_list (map getTime rs) + median_duration rs, correctness = NOT_CHECKED,
       stat_global = global1 run, stat_local = local1 run, kind = MULTI_ITERATION_SUM,
       trial = None, iteration = None\<rparr>])"
  using trial_records_after_sort_eq[OF assms std_sort_admissible, of run t]
  by (simp add: trial_records_def)

text \<open>
  Claim C5. Take a trial with \<open>n \<ge> 1\<close> raw records and any vector that the call of
  \<^verbatim>\<open>std::sort\<close> may leave of them, however it has ordered records of equal duration.
  The statements after the sort return that vector followed by the median record and
  the sum record; the durations of the first \<open>n\<close> records are the raw durations in
  ascending order, and the duration of the median record is the element at position
  \<open>n div 2\<close> (from 0) of the raw durations in ascending order. Nothing is averaged. The
  vector that \<open>std_sort\<close> computes is one of those that the call may leave, and
  \<open>trial_records\<close> is these statements applied to it.
\<close>

theorem median_record_is_upper_middle:
  "(1 \<le> length run_runtimes \<and> std_sort_result SqlStat_compare run_runtimes sorted_runtimes \<longrightarrow>
      (\<exists>recs. trial_records_after_sort run t sorted_runtimes = Inr recs
           \<and> length recs = length run_runtimes + 2
           \<and> take (length run_runtimes) recs = sorted_runtimes
           \<and> map getTime (take (length run_runtimes) recs) = sort (map getTime run_runtimes)
           \<and> kind (recs ! length run_runtimes) = MEDIAN_RESULT
           \<and> getTime (recs ! length run_runtimes) =
               sort (map getTime run_runtimes) ! (length run_runtimes div 2)))
   \<and> std_sort_result SqlStat_compare run_runtimes (std_sort SqlStat_compare run_runtimes)
   \<and> trial_records run t run_runtimes =
       trial_records_after_sort run t (std_sort SqlStat_compare run_runtimes)"
proof (intro conjI impI)
  assume a: "1 \<le> length run_runtimes \<and> std_sort_result SqlStat_compare run_runtimes sorted_runtimes"
  then have ne: "run_runtimes \<noteq> []" and r: "std_sort_result SqlStat_compare run_runtimes sorted_runtimes"
    by auto
  have n: "length sorted_runtimes = length run_runtimes" using r by (rule std_sort_result_length)
  from trial_records_after_sort_eq[OF ne r, of run t] std_sort_result_durations[OF r] n
  show "\<exists>recs. trial_records_after_sort run t sorted_runtimes = Inr recs
           \<and> length recs = length run_runtimes + 2
           \<and> take (length run_runtimes) recs = sorted_runtimes
           \<and> map getTime (take (length run_runtimes) recs) = sort (map getTime run_runtimes)
           \<and> kind (recs ! length run_runtimes) = MEDIAN_RESULT
           \<and> getTime (recs ! length run_runtimes) =
               sort (map getTime run_runtimes) ! (length run_runtimes div 2)"
    by (simp add: nth_append median_duration_def)
next
  show "std_sort_result SqlStat_compare run_runtimes (std_sort SqlStat_compare run_runtimes)"
    by (rule std_sort_admissible)
  show "trial_records run t run_runtimes =
       trial_records_after_sort run t (std_sort SqlStat_compare run_runtimes)"
    by (simp only: trial_records_def)
qed

text \<open>
  Durations 5, 1, 3 give the median 3; durations 4, 2, 6, 8 give the median 6; two
  records of duration 4 left by the sort in the reverse order of their iterations
  give the median 4.
\<close>

theorem median_record_is_upper_middle_witness:
  "map_sum id (\<lambda>recs. getTime (recs ! 3))
     (trial_records example_run 0 (map (\<lambda>(j, time). raw_record example_run 0 (int j) time)
        (zip [0..<3] [5, 1, 3]))) = Inr 3
   \<and> map_sum id (\<lambda>recs. getTime (recs ! 4))
     (trial_records example_run 0 (map (\<lambda>(j, time). raw_record example_run 0 (int j) time)
        (zip [0..<4] [4, 2, 6, 8]))) = Inr 6
   \<and> map_sum id (\<lambda>recs. (map SqlStat.iteration (take 2 recs), getTime (recs ! 2)))
     (trial_records_after_sort example_run 0
        [raw_record example_run 0 1 4, raw_record example_run 0 0 4]) = Inr ([Some 1, Some 0], 4)"
proof (intro conjI)
  let ?r3 = "map (\<lambda>(j, time). raw_record example_run 0 (int j) time) (zip [0..<3] [5, 1, 3])"
  let ?r4 = "map (\<lambda>(j, time). raw_record example_run 0 (int j) time) (zip [0..<4] [4, 2, 6, 8])"
  let ?r2 = "[raw_record example_run 0 0 4, raw_record example_run 0 1 4]"
  let ?s2 = "[raw_record example_run 0 1 4, raw_record example_run 0 0 4]"
  have l3: "length ?r3 = 3" and g3: "map getTime ?r3 = [5, 1, 3]"
    by (simp_all add: upt_rec raw_record_def)
  have l4: "length ?r4 = 4" and g4: "map getTime ?r4 = [4, 2, 6, 8]"
    by (simp_all add: upt_rec raw_record_def)
  have l2: "length ?r2 = 2" and g2: "map getTime ?r2 = [4, 4]"
    by (simp_all add: raw_record_def)
  note t3 = median_record_is_upper_middle[where run_runtimes = ?r3 and run = example_run and t = 0
      and sorted_runtimes = "std_sort SqlStat_compare ?r3"]
  have "1 \<le> length ?r3" by simp
  with t3 obtain recs where
    a: "trial_records example_run 0 ?r3 = Inr recs"
    and b: "getTime (recs ! length ?r3) = sort (map getTime ?r3) ! (length ?r3 div 2)"
    by metis
  have "getTime (recs ! 3) = 3" using b by (simp only: l3 g3) simp
  then show "map_sum id (\<lambda>recs. getTime (recs ! 3)) (trial_records example_run 0 ?r3) = Inr 3"
    by (simp only: a) simp
  note t4 = median_record_is_upper_middle[where run_runtimes = ?r4 and run = example_run and t = 0
      and sorted_runtimes = "std_sort SqlStat_compare ?r4"]
  have "1 \<le> length ?r4" by simp
  with t4 obtain recs where
    a: "trial_records example_run 0 ?r4 = Inr recs"
    and b: "getTime (recs ! length ?r4) = sort (map getTime ?r4) ! (length ?r4 div 2)"
    by metis
  have "getTime (recs ! 4) = 6" using b by (simp only: l4 g4) simp
  then show "map_sum id (\<lambda>recs. getTime (recs ! 4)) (trial_records example_run 0 ?r4) = Inr 6"
    by (simp only: a) simp
  note t2 = median_record_is_upper_middle[where run_runtimes = ?r2 and run = example_run and t = 0
      and sorted_runtimes = ?s2]
  have "1 \<le> length ?r2" by simp
  moreover have "std_sort_result SqlStat_compare ?r2 ?s2"
    by (simp add: std_sort_result_def SqlStat_compare_def raw_record_def add_mset_commute)
  ultimately obtain recs where
    a: "trial_records_after_sort example_run 0 ?s2 = Inr recs"
    and c: "take (length ?r2) recs = ?s2"
    and b: "getTime (recs ! length ?r2) = sort (map getTime ?r2) ! (length ?r2 div 2)"
    using t2 by metis
  have "getTime (recs ! 2) = 4" using b by (simp only: l2 g2) simp
  moreover have c': "take 2 recs = ?s2" using c by (simp only: l2)
  have "map SqlStat.iteration (take 2 recs) = [Some 1, Some 0]"
    by (simp only: c') (simp add: raw_record_def)
  ultimately show "map_sum id (\<lambda>recs. (map SqlStat.iteration (take 2 recs), getTime (recs ! 2)))
     (trial_records_after_sort example_run 0 ?s2) = Inr ([Some 1, Some 0], 4)"
    by (simp only: a) simp
qed

text \<open>
  Claim C2, on the code. The sum is accumulated over the vector after the median record
  has been appended to it, so the sum record holds the total of the raw durations plus
  the median duration (lemma \<open>trial_records_eq\<close>). For the run of the saturating kernel,
  with raw durations 5, 1 and 3, the sum record holds 12 and not 9.
\<close>

theorem sum_record_includes_median:
  "map_option (map_sum id (\<lambda>(all_runtimes, h'). map (map (\<lambda>r. (kind r, getTime r))) all_runtimes))
     (benchmark saturating_kernel example_run example_harness)
   = Some (Inr [[(RAW_RESULT, 1), (RAW_RESULT, 3), (RAW_RESULT, 5), (MEDIAN_RESULT, 3),
                 (MULTI_ITERATION_SUM, 12)]])"
proof -
  from saturating_benchmark obtain h' all_runtimes where
    "benchmark saturating_kernel example_run example_harness = Some (Inr (all_runtimes, h'))"
    "map (map (\<lambda>r. (kind r, getTime r))) all_runtimes = [[(RAW_RESULT, 1), (RAW_RESULT, 3), (RAW_RESULT, 5), (MEDIAN_RESULT, 3),
                 (MULTI_ITERATION_SUM, 12)]]"
    by (auto simp: raw_record_def)
  then show ?thesis by simp
qed


section \<open>The verdicts in the records of the benchmark\<close>





end
